theory Spec2Isabelle
  imports Main
begin

section \<open>Values, errors and instrumented objects\<close>

text \<open>
  The development embeds \<^verbatim>\<open>lib/vstream.js\<close> and \<^verbatim>\<open>lib/stream-pipeline.js\<close>.
  A JavaScript exception is a value of type \<open>error\<close>: \<open>AssertionError\<close> is what a failed
  \<^verbatim>\<open>mod_assertplus.ok\<close> throws (assertions are taken as enabled, the default of
  assert-plus), \<open>TypeError\<close> is what the language throws when a non-function is called or a
  property of \<^verbatim>\<open>undefined\<close> is read, and \<open>Error\<close> is the plain
  \<^verbatim>\<open>new Error(...)\<close> thrown by \<^verbatim>\<open>PipelineStream.prototype._read\<close>.
\<close>

datatype error = AssertionError | TypeError | Error

text \<open>One entry of a provenance stack: \<^verbatim>\<open>{ pvp_source, pvp_input }\<close>.\<close>

record pvp =
  pvp_source :: string
  pvp_input :: nat

text \<open>
  The values that flow through a stream. \<open>JPV\<close> is an instance of
  \<^verbatim>\<open>ProvenanceValue\<close>, \<open>JError\<close> an instance of \<^verbatim>\<open>Error\<close>; the other
  constructors are the primitive values the code tells apart.
\<close>

datatype jsval = JNull | JUndefined | JStr string | JNum int | JError string
  | JPV provenance_value
and provenance_value = ProvenanceValue (pv_value: jsval) (pv_provenance: "pvp list")

datatype marshalmode = Unspecified | Marshal | Nomarshal

text \<open>The arguments of one \<^verbatim>\<open>emit('warn', context, kind, err)\<close>.\<close>

record warn_event =
  we_context :: "provenance_value option"
  we_kind :: string
  we_error :: jsval

text \<open>
  An object as this module sees it. A field that the module adds only on instrumentation is
  optional: \<open>None\<close> is the absent property. \<open>vs_counters\<close> holds the own properties of the
  counter object \<^verbatim>\<open>{}\<close>; counter values are natural numbers (the source counts with
  JavaScript numbers, exact up to \<open>2 ^ 53\<close>). \<open>realpushed\<close> and \<open>emitted\<close> record, oldest
  first, what has been handed to the stream's original \<^verbatim>\<open>push\<close> and to
  \<^verbatim>\<open>emit('warn', ...)\<close>.
\<close>

record vobj =
  constructor_name :: string
  vs_name :: "string option"
  vs_counters :: "string \<rightharpoonup> nat"
  vs_context :: "provenance_value option"
  vs_upstreams :: "nat list option"
  vs_downstreams :: "nat list option"
  vs_marshalmode :: "marshalmode option"
  ps_streams :: "nat list option"
  realpushed :: "jsval list"
  emitted :: "warn_event list"

definition plain :: "string \<Rightarrow> vobj" where
  "plain cn = \<lparr>constructor_name = cn, vs_name = None, vs_counters = Map.empty,
     vs_context = None, vs_upstreams = None, vs_downstreams = None, vs_marshalmode = None,
     ps_streams = None, realpushed = [], emitted = []\<rparr>"

definition isInstrumented :: "vobj \<Rightarrow> bool" where
  "isInstrumented obj = (vs_name obj \<noteq> None)"

definition instrumentObject :: "string \<Rightarrow> vobj \<Rightarrow> error + vobj" where
  "instrumentObject name obj =
     (if isInstrumented obj then Inl AssertionError
      else Inr (obj\<lparr>vs_name := Some name, vs_counters := Map.empty, vs_context := None\<rparr>))"

text \<open>
  The counter object is a plain \<^verbatim>\<open>{}\<close>, so two of its property names are not
  ordinary keys. \<^verbatim>\<open>this.vs_counters.hasOwnProperty(name)\<close> looks the method up on
  the counter object itself: once that object has an own property named
  \<^verbatim>\<open>hasOwnProperty\<close> (a counter, hence a number), the call throws a TypeError.
  An assignment to the key \<^verbatim>\<open>__proto__\<close> reaches the setter inherited from
  \<^verbatim>\<open>Object.prototype\<close>, which ignores a value that is not an object: no own
  property is created, by the initialisation or by the increment.
\<close>

definition call_hasOwnProperty :: "(string \<rightharpoonup> nat) \<Rightarrow> string \<Rightarrow> error + bool" where
  "call_hasOwnProperty counters name =
     (if counters ''hasOwnProperty'' \<noteq> None then Inl TypeError else Inr (counters name \<noteq> None))"

definition assign :: "(string \<rightharpoonup> nat) \<Rightarrow> string \<Rightarrow> nat \<Rightarrow> (string \<rightharpoonup> nat)" where
  "assign counters name v = (if name = ''__proto__'' then counters else counters(name \<mapsto> v))"

definition vsCounterBump :: "string \<Rightarrow> vobj \<Rightarrow> error + vobj" where
  "vsCounterBump name this =
     (case call_hasOwnProperty (vs_counters this) name of
        Inl e \<Rightarrow> Inl e
      | Inr has \<Rightarrow>
          let c0 = (if \<not> has then assign (vs_counters this) name 0 else vs_counters this);
              c1 = assign c0 name ((case c0 name of None \<Rightarrow> 0 | Some n \<Rightarrow> n) + 1)
          in Inr (this\<lparr>vs_counters := c1\<rparr>))"

text \<open>\<open>bumps k n\<close> is \<open>n\<close> consecutive calls of \<^verbatim>\<open>vsCounterBump(k)\<close>; an exception ends the run.\<close>

fun bumps :: "string \<Rightarrow> nat \<Rightarrow> vobj \<Rightarrow> error + vobj" where
  "bumps k 0 this = Inr this"
| "bumps k (Suc n) this =
     (case vsCounterBump k this of Inl e \<Rightarrow> Inl e | Inr this' \<Rightarrow> bumps k n this')"

section \<open>Provenance values\<close>

text \<open>
  \<^verbatim>\<open>ProvenanceValue.prototype.next\<close>, first as the source writes it: on a store of
  \<^verbatim>\<open>ProvenanceValue\<close> objects and of the arrays their \<^verbatim>\<open>pv_provenance\<close> fields
  point to. An object or array reference is an index into the store; \<^verbatim>\<open>new\<close>,
  \<^verbatim>\<open>[]\<close> and \<^verbatim>\<open>slice(0)\<close> allocate at the end; \<^verbatim>\<open>Array.prototype.push\<close>
  writes in place. The payload type is a parameter: this function never looks at it.
\<close>

record 'v pv_object =
  hpv_value :: 'v
  hpv_provenance :: nat

record 'v pv_store =
  objects :: "'v pv_object list"
  arrays :: "pvp list list"

definition new_ProvenanceValue :: "'v \<Rightarrow> 'v pv_store \<Rightarrow> nat \<times> 'v pv_store" where
  "new_ProvenanceValue v st =
     (length (objects st),
      st\<lparr>objects := objects st @ [\<lparr>hpv_value = v, hpv_provenance = length (arrays st)\<rparr>],
         arrays := arrays st @ [[]]\<rparr>)"

definition array_slice0 :: "nat \<Rightarrow> 'v pv_store \<Rightarrow> nat \<times> 'v pv_store" where
  "array_slice0 a st = (length (arrays st), st\<lparr>arrays := arrays st @ [arrays st ! a]\<rparr>)"

definition array_push :: "nat \<Rightarrow> pvp \<Rightarrow> 'v pv_store \<Rightarrow> 'v pv_store" where
  "array_push a x st = st\<lparr>arrays := (arrays st)[a := arrays st ! a @ [x]]\<rparr>"

definition set_pv_provenance :: "nat \<Rightarrow> nat \<Rightarrow> 'v pv_store \<Rightarrow> 'v pv_store" where
  "set_pv_provenance r a st =
     st\<lparr>objects := (objects st)[r := (objects st ! r)\<lparr>hpv_provenance := a\<rparr>]\<rparr>"

text \<open>\<^verbatim>\<open>source.vs_counters['ninputs'] || 0\<close>\<close>

definition ninputs_or_0 :: "vobj \<Rightarrow> nat" where
  "ninputs_or_0 source = (case vs_counters source ''ninputs'' of None \<Rightarrow> 0 | Some n \<Rightarrow> n)"

definition ProvenanceValue_next ::
    "nat \<Rightarrow> 'v \<Rightarrow> vobj \<Rightarrow> 'v pv_store \<Rightarrow> error + nat \<times> 'v pv_store" where
  "ProvenanceValue_next this newvalue source st =
     (case vs_name source of
        None \<Rightarrow> Inl AssertionError
      | Some nm \<Rightarrow>
          (case new_ProvenanceValue newvalue st of (rv, st1) \<Rightarrow>
           case array_slice0 (hpv_provenance (objects st1 ! this)) st1 of (copy, st2) \<Rightarrow>
           let st3 = set_pv_provenance rv copy st2;
               st4 = array_push (hpv_provenance (objects st3 ! rv))
                       \<lparr>pvp_source = nm, pvp_input = ninputs_or_0 source\<rparr> st3
           in Inr (rv, st4)))"

text \<open>A reference is valid when the object and the array it points to are allocated.\<close>

definition valid_ref :: "'v pv_store \<Rightarrow> nat \<Rightarrow> bool" where
  "valid_ref st r = (r < length (objects st) \<and> hpv_provenance (objects st ! r) < length (arrays st))"

text \<open>The value a reference denotes: payload and history.\<close>

definition pv_at :: "jsval pv_store \<Rightarrow> nat \<Rightarrow> provenance_value" where
  "pv_at st r = ProvenanceValue (hpv_value (objects st ! r)) (arrays st ! hpv_provenance (objects st ! r))"

text \<open>
  The same method on values. No function of the module writes to a
  \<^verbatim>\<open>ProvenanceValue\<close> after \<^verbatim>\<open>next\<close> has returned it, so the rest of the
  development passes provenance values by value; \<open>pv_next_refines\<close> below relates the two.
\<close>

definition pv_next :: "provenance_value \<Rightarrow> jsval \<Rightarrow> vobj \<Rightarrow> error + provenance_value" where
  "pv_next this newvalue source =
     (case vs_name source of
        None \<Rightarrow> Inl AssertionError
      | Some nm \<Rightarrow> Inr (ProvenanceValue newvalue
          (pv_provenance this @ [\<lparr>pvp_source = nm, pvp_input = ninputs_or_0 source\<rparr>])))"

definition withSource :: "provenance_value \<Rightarrow> vobj \<Rightarrow> error + provenance_value" where
  "withSource this source = pv_next this (pv_value this) source"

section \<open>Warnings\<close>

definition is_Error :: "jsval \<Rightarrow> bool" where
  "is_Error v = (case v of JError _ \<Rightarrow> True | _ \<Rightarrow> False)"

definition emit_warn :: "provenance_value option \<Rightarrow> string \<Rightarrow> jsval \<Rightarrow> vobj \<Rightarrow> vobj" where
  "emit_warn context kind err this =
     this\<lparr>emitted := emitted this @ [\<lparr>we_context = context, we_kind = kind, we_error = err\<rparr>]\<rparr>"

text \<open>The kind is a string by its type, which is what \<^verbatim>\<open>mod_assertplus.string(kind)\<close> checks.\<close>

definition vsWarn :: "jsval \<Rightarrow> string \<Rightarrow> vobj \<Rightarrow> error + vobj" where
  "vsWarn err kind this =
     (if \<not> isInstrumented this then Inl AssertionError
      else if \<not> is_Error err then Inl AssertionError
      else
        case (case vs_context this of
                None \<Rightarrow> Inr None
              | Some c \<Rightarrow> (case withSource c this of Inl e \<Rightarrow> Inl e | Inr c' \<Rightarrow> Inr (Some c')))
        of Inl e \<Rightarrow> Inl e
         | Inr context \<Rightarrow>
            (case vsCounterBump kind this of
               Inl e \<Rightarrow> Inl e
             | Inr this' \<Rightarrow> Inr (emit_warn context kind err this')))"

section \<open>Transform instrumentation\<close>

definition instrumentTransform :: "vobj \<Rightarrow> error + vobj" where
  "instrumentTransform transform =
     (if \<not> isInstrumented transform then Inl AssertionError
      else Inr (transform\<lparr>vs_marshalmode := Some Unspecified\<rparr>))"

text \<open>The stream's original \<^verbatim>\<open>push\<close>, kept as \<^verbatim>\<open>vs_realpush\<close>: the engine takes the value.\<close>

definition vs_realpush :: "jsval \<Rightarrow> vobj \<Rightarrow> vobj" where
  "vs_realpush v this = this\<lparr>realpushed := realpushed this @ [v]\<rparr>"

definition vsPush :: "jsval \<Rightarrow> vobj \<Rightarrow> error + vobj" where
  "vsPush chunk this =
     (if \<not> isInstrumented this then Inl AssertionError
      else if \<not> (chunk = JNull \<or> vs_context this \<noteq> None) then Inl AssertionError
      else if chunk = JNull then Inr (vs_realpush JNull this)
      else
        case vsCounterBump ''noutputs'' this of
          Inl e \<Rightarrow> Inl e
        | Inr t1 \<Rightarrow>
            let t2 = (if vs_marshalmode t1 = Some Unspecified
                      then t1\<lparr>vs_marshalmode := Some Nomarshal\<rparr> else t1)
            in if vs_marshalmode t2 = Some Nomarshal then Inr (vs_realpush chunk t2)
               else (case vs_context t2 of
                       None \<Rightarrow> Inl TypeError
                     | Some c \<Rightarrow>
                        (case pv_next c chunk t2 of
                           Inl e \<Rightarrow> Inl e
                         | Inr augmented \<Rightarrow> Inr (vs_realpush (JPV augmented) t2))))"

text \<open>
  \<^verbatim>\<open>vsTransform\<close> up to the call of the real \<^verbatim>\<open>_transform\<close>: the result is the
  provenance value the callback closes over and the state in which the real function
  starts, with \<open>pv_value\<close> of that provenance value as its chunk.
\<close>

definition augment :: "jsval \<Rightarrow> provenance_value" where
  "augment chunk = (case chunk of JPV pv \<Rightarrow> pv | _ \<Rightarrow> ProvenanceValue chunk [])"

definition vsTransform :: "jsval \<Rightarrow> vobj \<Rightarrow> error + provenance_value \<times> vobj" where
  "vsTransform chunk this =
     (if \<not> isInstrumented this then Inl AssertionError
      else if vs_context this \<noteq> None then Inl AssertionError
      else
        let augmented = augment chunk
        in case vsCounterBump ''ninputs'' this of
             Inl e \<Rightarrow> Inl e
           | Inr t1 \<Rightarrow> Inr (augmented, t1\<lparr>vs_context := Some augmented\<rparr>))"

definition truthy :: "jsval \<Rightarrow> bool" where
  "truthy v = (case v of JNull \<Rightarrow> False | JUndefined \<Rightarrow> False | JStr s \<Rightarrow> s \<noteq> []
                | JNum n \<Rightarrow> n \<noteq> 0 | JError _ \<Rightarrow> True | JPV _ \<Rightarrow> True)"

definition argument :: "jsval list \<Rightarrow> nat \<Rightarrow> jsval" where
  "argument args i = (if i < length args then args ! i else JUndefined)"

text \<open>
  The callback \<^verbatim>\<open>vsTransform\<close> hands to the real \<^verbatim>\<open>_transform\<close>, called with the
  argument list \<open>args\<close>. On success the result is the state and the arguments passed on to
  the caller's callback, \<^verbatim>\<open>slice.call(arguments, 0, 1)\<close>. The source compares the
  context with \<^verbatim>\<open>augmented\<close> by \<^verbatim>\<open>===\<close>, on object identity; here the two are
  compared as values.
\<close>

definition vsTransform_callback ::
    "provenance_value \<Rightarrow> jsval list \<Rightarrow> vobj \<Rightarrow> error + vobj \<times> jsval list" where
  "vsTransform_callback augmented args self =
     (if \<not> length args < 3 then Inl AssertionError
      else if vs_context self \<noteq> Some augmented then Inl AssertionError
      else
        case (if \<not> truthy (argument args 0) \<and> length args > 1
              then (case vsPush (argument args 1) self of
                      Inl e \<Rightarrow> Inl e
                    | Inr s1 \<Rightarrow> if vs_context s1 \<noteq> Some augmented then Inl AssertionError
                                else Inr s1)
              else Inr self)
        of Inl e \<Rightarrow> Inl e
         | Inr s2 \<Rightarrow> Inr (s2\<lparr>vs_context := None\<rparr>, take 1 args))"

definition vsFlush :: "vobj \<Rightarrow> error + provenance_value \<times> vobj" where
  "vsFlush this =
     (if \<not> isInstrumented this then Inl AssertionError
      else if vs_context this \<noteq> None then Inl AssertionError
      else
        let augmented = ProvenanceValue JUndefined []
        in Inr (augmented, this\<lparr>vs_context := Some augmented\<rparr>))"

definition vsFlush_callback ::
    "provenance_value \<Rightarrow> jsval list \<Rightarrow> vobj \<Rightarrow> error + vobj \<times> jsval list" where
  "vsFlush_callback augmented args self =
     (if vs_context self \<noteq> Some augmented then Inl AssertionError
      else Inr (self\<lparr>vs_context := None\<rparr>, args))"

text \<open>
  What the real \<^verbatim>\<open>_transform\<close> may do with the stream while it runs: push values and
  raise warnings. \<open>run_real\<close> performs such a list of actions in order and stops at the
  first exception.
\<close>

datatype action = DoPush jsval | DoWarn jsval string

fun perform :: "action \<Rightarrow> vobj \<Rightarrow> error + vobj" where
  "perform (DoPush v) this = vsPush v this"
| "perform (DoWarn err kind) this = vsWarn err kind this"

fun run_real :: "action list \<Rightarrow> vobj \<Rightarrow> error + vobj" where
  "run_real [] this = Inr this"
| "run_real (a # as) this =
     (case perform a this of Inl e \<Rightarrow> Inl e | Inr this' \<Rightarrow> run_real as this')"

text \<open>
  One whole processing call: \<^verbatim>\<open>vsTransform\<close> is entered with \<open>chunk\<close>, the real
  \<^verbatim>\<open>_transform\<close> performs \<open>acts\<close> and then calls the callback with \<open>args\<close>.
\<close>

definition processing_call ::
    "jsval \<Rightarrow> action list \<Rightarrow> jsval list \<Rightarrow> vobj \<Rightarrow> error + vobj \<times> jsval list" where
  "processing_call chunk acts args this =
     (case vsTransform chunk this of
        Inl e \<Rightarrow> Inl e
      | Inr (augmented, t1) \<Rightarrow>
          (case run_real acts t1 of
             Inl e \<Rightarrow> Inl e
           | Inr t2 \<Rightarrow> vsTransform_callback augmented args t2))"

section \<open>Stage linkage\<close>

text \<open>
  Linkage lists hold references to other objects, so the linkage functions work on a heap
  of objects addressed by number. A function on the heap returns the exception it threw, if
  any, and the heap as it is when the function returns or throws.
\<close>

type_synonym heap = "nat \<Rightarrow> vobj"

definition on_object :: "nat \<Rightarrow> (vobj \<Rightarrow> error + vobj) \<Rightarrow> heap \<Rightarrow> error option \<times> heap" where
  "on_object a f h = (case f (h a) of Inl e \<Rightarrow> (Some e, h) | Inr obj \<Rightarrow> (None, h(a := obj)))"

definition instrumentStream :: "vobj \<Rightarrow> error + vobj" where
  "instrumentStream stream =
     (if \<not> isInstrumented stream then Inl AssertionError
      else Inr (stream\<lparr>vs_upstreams := Some [], vs_downstreams := Some []\<rparr>))"

text \<open>
  The block that \<^verbatim>\<open>vsRecordPipe\<close> runs on its argument and the \<^verbatim>\<open>'pipe'\<close>
  listener of \<^verbatim>\<open>instrumentStream\<close> runs on the source: an object that is not
  instrumented must not have the list \<open>prop\<close> and is instrumented as an object and as
  a stream under its constructor's name; an instrumented object is left alone.
\<close>

definition instrument_if_needed :: "(vobj \<Rightarrow> nat list option) \<Rightarrow> vobj \<Rightarrow> error + vobj" where
  "instrument_if_needed prop obj =
     (if \<not> isInstrumented obj then
        (if prop obj \<noteq> None then Inl AssertionError
         else (case instrumentObject (constructor_name obj) obj of
                 Inl e \<Rightarrow> Inl e
               | Inr d1 \<Rightarrow> instrumentStream d1))
      else Inr obj)"

text \<open>
  The two statements that end \<^verbatim>\<open>vsRecordPipe\<close>:
  \<^verbatim>\<open>this.vs_downstreams.push(downstream); downstream.vs_upstreams.push(this)\<close>. A
  \<^verbatim>\<open>push\<close> on a list that is absent is a TypeError, thrown with the writes made so far
  in place.
\<close>

definition push_pair :: "nat \<Rightarrow> nat \<Rightarrow> heap \<Rightarrow> error option \<times> heap" where
  "push_pair this downstream h =
     (case vs_downstreams (h this) of
        None \<Rightarrow> (Some TypeError, h)
      | Some ds \<Rightarrow>
         let h1 = h(this := (h this)\<lparr>vs_downstreams := Some (ds @ [downstream])\<rparr>) in
         (case vs_upstreams (h1 downstream) of
            None \<Rightarrow> (Some TypeError, h1)
          | Some us \<Rightarrow>
             (None, h1(downstream := (h1 downstream)\<lparr>vs_upstreams := Some (us @ [this])\<rparr>))))"

text \<open>\<open>vsRecordPipe this downstream\<close> is \<^verbatim>\<open>this.vsRecordPipe(downstream)\<close>.\<close>

definition vsRecordPipe :: "nat \<Rightarrow> nat \<Rightarrow> heap \<Rightarrow> error option \<times> heap" where
  "vsRecordPipe this downstream h =
     (case instrument_if_needed vs_upstreams (h downstream) of
        Inl e \<Rightarrow> (Some e, h)
      | Inr d \<Rightarrow> push_pair this downstream (h(downstream := d)))"

text \<open>
  The search loops of \<^verbatim>\<open>vsRecordUnpipe\<close>: the index of the first element equal to
  \<open>x\<close>, or the length of the list when there is none. \<open>splice1 i xs\<close> is
  \<^verbatim>\<open>xs.splice(i, 1)\<close>.
\<close>

fun first_index :: "nat \<Rightarrow> nat list \<Rightarrow> nat" where
  "first_index x [] = 0"
| "first_index x (y # ys) = (if x = y then 0 else Suc (first_index x ys))"

definition splice1 :: "nat \<Rightarrow> 'a list \<Rightarrow> 'a list" where
  "splice1 i xs = take i xs @ drop (Suc i) xs"

definition vsRecordUnpipe :: "nat \<Rightarrow> nat \<Rightarrow> heap \<Rightarrow> error option \<times> heap" where
  "vsRecordUnpipe this downstream h =
     (case vs_downstreams (h this) of
        None \<Rightarrow> (Some TypeError, h)
      | Some ds \<Rightarrow>
         let i = first_index downstream ds in
         if \<not> i < length ds then (Some AssertionError, h)
         else
           (case vs_upstreams (h downstream) of
              None \<Rightarrow> (Some TypeError, h)
            | Some us \<Rightarrow>
               let j = first_index this us in
               if \<not> j < length us then (Some AssertionError, h)
               else
                 let h1 = h(this := (h this)\<lparr>vs_downstreams := Some (splice1 i ds)\<rparr>)
                 in (None, h1(downstream := (h1 downstream)\<lparr>vs_upstreams := Some (splice1 j us)\<rparr>))))"

text \<open>
  The \<^verbatim>\<open>'pipe'\<close> listener that \<^verbatim>\<open>instrumentStream\<close> installs on \<open>stream\<close>, called
  with \<open>source\<close>. The method \<^verbatim>\<open>vsRecordPipe\<close> is on \<open>source\<close> when
  \<^verbatim>\<open>instrumentStream\<close> has run on it, which is when it has its lists.
\<close>

definition stream_on_pipe :: "nat \<Rightarrow> nat \<Rightarrow> heap \<Rightarrow> error option \<times> heap" where
  "stream_on_pipe stream source h =
     (case instrument_if_needed vs_downstreams (h source) of
        Inl e \<Rightarrow> (Some e, h)
      | Inr s \<Rightarrow>
          let h1 = h(source := s) in
          if vs_downstreams (h1 source) = None then (Some TypeError, h1)
          else vsRecordPipe source stream h1)"

text \<open>
  The \<^verbatim>\<open>'pipe'\<close> listener that \<^verbatim>\<open>instrumentTransform\<close> installs (and
  \<^verbatim>\<open>PipelineStream\<close> installs again when its head is an instrumented transform), called
  with \<open>upstream\<close>: the stream piped into the instrumented one. \<open>pipe_target\<close> is the
  object whose mode the listener looks at: \<open>upstream\<close> itself, or the last of its
  \<^verbatim>\<open>ps_streams\<close> when it has that property; reading the mode of the last element of
  an empty \<^verbatim>\<open>ps_streams\<close> is a TypeError.
\<close>

definition pipe_target :: "heap \<Rightarrow> nat \<Rightarrow> nat option" where
  "pipe_target h upstream =
     (case ps_streams (h upstream) of
        None \<Rightarrow> Some upstream
      | Some ss \<Rightarrow> (if ss = [] then None else Some (last ss)))"

definition transform_on_pipe :: "nat \<Rightarrow> heap \<Rightarrow> error option \<times> heap" where
  "transform_on_pipe upstream h =
     (case pipe_target h upstream of
        None \<Rightarrow> (Some TypeError, h)
      | Some u \<Rightarrow>
          (None, if vs_marshalmode (h u) = Some Unspecified
                 then h(u := (h u)\<lparr>vs_marshalmode := Some Marshal\<rparr>) else h))"

section \<open>Events of a pipeline\<close>

text \<open>
  What the module does while a pipeline runs, as events on the heap: the methods called on
  an object, the two \<^verbatim>\<open>'pipe'\<close> listeners, entry to \<^verbatim>\<open>vsTransform\<close> and
  \<^verbatim>\<open>vsFlush\<close> and the callbacks they hand out. The real \<^verbatim>\<open>_transform\<close> and
  \<^verbatim>\<open>_flush\<close> are any events in between. The three functions that set a pipeline up,
  \<^verbatim>\<open>instrumentObject\<close>, \<^verbatim>\<open>instrumentStream\<close> and \<^verbatim>\<open>instrumentTransform\<close>, are not
  events: \<open>fire\<close> never runs them on their own, and what a renewed
  \<^verbatim>\<open>instrumentTransform\<close> does to a stage is stated apart, on the function itself.
\<close>

datatype event =
    EvCounterBump nat string
  | EvWarn nat jsval string
  | EvRecordPipe nat nat
  | EvRecordUnpipe nat nat
  | EvStreamPipe nat nat
  | EvTransformPipe nat
  | EvTransform nat jsval
  | EvTransformDone nat provenance_value "jsval list"
  | EvFlush nat
  | EvFlushDone nat provenance_value "jsval list"
  | EvPush nat jsval

definition dropping :: "(vobj \<Rightarrow> error + 'a \<times> vobj) \<Rightarrow> vobj \<Rightarrow> error + vobj" where
  "dropping f this = (case f this of Inl e \<Rightarrow> Inl e | Inr (x, this') \<Rightarrow> Inr this')"

definition keeping :: "(vobj \<Rightarrow> error + vobj \<times> 'a) \<Rightarrow> vobj \<Rightarrow> error + vobj" where
  "keeping f this = (case f this of Inl e \<Rightarrow> Inl e | Inr (this', x) \<Rightarrow> Inr this')"

fun fire :: "event \<Rightarrow> heap \<Rightarrow> error option \<times> heap" where
  "fire (EvCounterBump a name) h = on_object a (vsCounterBump name) h"
| "fire (EvWarn a err kind) h = on_object a (vsWarn err kind) h"
| "fire (EvRecordPipe a b) h = vsRecordPipe a b h"
| "fire (EvRecordUnpipe a b) h = vsRecordUnpipe a b h"
| "fire (EvStreamPipe stream source) h = stream_on_pipe stream source h"
| "fire (EvTransformPipe upstream) h = transform_on_pipe upstream h"
| "fire (EvTransform a chunk) h = on_object a (dropping (vsTransform chunk)) h"
| "fire (EvTransformDone a augmented args) h =
     on_object a (keeping (vsTransform_callback augmented args)) h"
| "fire (EvFlush a) h = on_object a (dropping vsFlush) h"
| "fire (EvFlushDone a augmented args) h =
     on_object a (keeping (vsFlush_callback augmented args)) h"
| "fire (EvPush a chunk) h = on_object a (vsPush chunk) h"

fun fire_all :: "event list \<Rightarrow> heap \<Rightarrow> heap" where
  "fire_all [] h = h"
| "fire_all (e # es) h = fire_all es (snd (fire e h))"

text \<open>
  \<open>connects h ev a\<close>: the event is the transform's \<^verbatim>\<open>'pipe'\<close> listener looking at the
  object \<open>a\<close>, that is, \<open>a\<close> is being piped into an instrumented transform.
  \<open>emits ev a\<close>: the event is a push by \<open>a\<close> of a value other than \<^verbatim>\<open>null\<close>,
  called directly or by the callback of \<^verbatim>\<open>vsTransform\<close>.
\<close>

fun connects :: "heap \<Rightarrow> event \<Rightarrow> nat \<Rightarrow> bool" where
  "connects h (EvTransformPipe upstream) a = (pipe_target h upstream = Some a)"
| "connects h _ a = False"

fun emits :: "event \<Rightarrow> nat \<Rightarrow> bool" where
  "emits (EvPush b chunk) a = (b = a \<and> chunk \<noteq> JNull)"
| "emits (EvTransformDone b augmented args) a =
     (b = a \<and> \<not> truthy (argument args 0) \<and> length args > 1 \<and> argument args 1 \<noteq> JNull)"
| "emits _ a = False"

text \<open>Sequences of the two linkage operations alone.\<close>

datatype linkop = RecordPipe nat nat | RecordUnpipe nat nat

fun link :: "linkop \<Rightarrow> heap \<Rightarrow> heap" where
  "link (RecordPipe a b) h = snd (vsRecordPipe a b h)"
| "link (RecordUnpipe a b) h = snd (vsRecordUnpipe a b h)"

fun link_all :: "linkop list \<Rightarrow> heap \<Rightarrow> heap" where
  "link_all [] h = h"
| "link_all (x # xs) h = link_all xs (link x h)"

definition upstreams_of :: "heap \<Rightarrow> nat \<Rightarrow> nat list" where
  "upstreams_of h a = (case vs_upstreams (h a) of None \<Rightarrow> [] | Some us \<Rightarrow> us)"

definition downstreams_of :: "heap \<Rightarrow> nat \<Rightarrow> nat list" where
  "downstreams_of h a = (case vs_downstreams (h a) of None \<Rightarrow> [] | Some ds \<Rightarrow> ds)"

text \<open>
  An object is a stage when \<^verbatim>\<open>instrumentObject\<close> and \<^verbatim>\<open>instrumentStream\<close> have
  both run on it, and untouched when neither has; \<open>staged obj\<close> is what the
  instrumentation block of \<^verbatim>\<open>vsRecordPipe\<close> makes of an untouched object.
\<close>

definition is_stage :: "vobj \<Rightarrow> bool" where
  "is_stage obj = (vs_name obj \<noteq> None \<and> vs_upstreams obj \<noteq> None \<and> vs_downstreams obj \<noteq> None)"

definition untouched :: "vobj \<Rightarrow> bool" where
  "untouched obj = (vs_name obj = None \<and> vs_upstreams obj = None \<and> vs_downstreams obj = None)"

definition staged :: "vobj \<Rightarrow> vobj" where
  "staged obj = obj\<lparr>vs_name := Some (constructor_name obj), vs_counters := Map.empty,
     vs_context := None, vs_upstreams := Some [], vs_downstreams := Some []\<rparr>"

definition stages_only :: "heap \<Rightarrow> bool" where
  "stages_only h = (\<forall>a. is_stage (h a) \<or> untouched (h a))"

definition mutually_linked :: "heap \<Rightarrow> bool" where
  "mutually_linked h =
     (\<forall>a b. count_list (upstreams_of h b) a = count_list (downstreams_of h a) b)"

section \<open>The pipeline stream's read side\<close>

text \<open>
  The part of a \<^verbatim>\<open>PipelineStream\<close> that \<^verbatim>\<open>_read\<close> looks at:
  \<^verbatim>\<open>_readableState.length\<close>, \<^verbatim>\<open>_readableState.highWaterMark\<close> and
  \<^verbatim>\<open>ps_needreadable\<close>; \<open>node_state\<close> is everything else the stream engine keeps.
  The engine is not part of this module, so \<^verbatim>\<open>this.ps_tail.read(1)\<close> and
  \<^verbatim>\<open>this.push(chunk)\<close> are parameters: each returns its result and the new state.
  The loop of \<^verbatim>\<open>_read\<close> ends only when the engine makes it end, so it is a partial
  function: \<open>None\<close> is a loop that runs forever.
\<close>

record 'e pipeline_stream =
  readable_length :: nat
  readable_highWaterMark :: nat
  ps_needreadable :: bool
  node_state :: 'e

partial_function (option) read_loop ::
    "('e pipeline_stream \<Rightarrow> jsval \<times> 'e pipeline_stream) \<Rightarrow>
     (jsval \<Rightarrow> 'e pipeline_stream \<Rightarrow> bool \<times> 'e pipeline_stream) \<Rightarrow>
     'e pipeline_stream \<Rightarrow> 'e pipeline_stream option" where
  "read_loop tail_read push this =
     (case tail_read this of (chunk, s1) \<Rightarrow>
        if chunk = JNull then Some (s1\<lparr>ps_needreadable := True\<rparr>)
        else (case push chunk s1 of (wants_more, s2) \<Rightarrow>
                if \<not> wants_more then Some s2 else read_loop tail_read push s2))"

definition PipelineStream_read ::
    "('e pipeline_stream \<Rightarrow> jsval \<times> 'e pipeline_stream) \<Rightarrow>
     (jsval \<Rightarrow> 'e pipeline_stream \<Rightarrow> bool \<times> 'e pipeline_stream) \<Rightarrow>
     'e pipeline_stream \<Rightarrow> (error + 'e pipeline_stream) option" where
  "PipelineStream_read tail_read push this =
     (if readable_length this > readable_highWaterMark this + 1 then Some (Inl Error)
      else map_option Inr (read_loop tail_read push this))"


text \<open>
  Normal scheduling, as a contract on the stream engine: reading from the
  tail leaves the outward buffer alone; \<^verbatim>\<open>push\<close> adds one unit to it (one object, or
  the one byte that \<^verbatim>\<open>read(1)\<close> returned) and returns true only while the buffer is
  below the high-water mark.
\<close>

definition normal_engine ::
    "('e pipeline_stream \<Rightarrow> jsval \<times> 'e pipeline_stream) \<Rightarrow>
     (jsval \<Rightarrow> 'e pipeline_stream \<Rightarrow> bool \<times> 'e pipeline_stream) \<Rightarrow> bool" where
  "normal_engine tail_read push =
     ((\<forall>s. readable_length (snd (tail_read s)) = readable_length s
           \<and> readable_highWaterMark (snd (tail_read s)) = readable_highWaterMark s)
      \<and> (\<forall>c s. readable_length (snd (push c s)) = readable_length s + 1
           \<and> readable_highWaterMark (snd (push c s)) = readable_highWaterMark s
           \<and> (fst (push c s) \<longrightarrow> readable_length (snd (push c s)) < readable_highWaterMark s)))"




section \<open>Example objects\<close>

text \<open>
  \<open>fresh_t1\<close> is a \<^verbatim>\<open>TestTransform\<close> after \<^verbatim>\<open>instrumentObject(t1, { name: 't1' })\<close>,
  \<open>transform_t1\<close> the same object after \<^verbatim>\<open>instrumentTransform(t1)\<close>, and
  \<open>poisoned_t1\<close> is \<open>transform_t1\<close> after one
  \<^verbatim>\<open>t1.vsWarn(new Error('explicit drop'), 'hasOwnProperty')\<close> and \<open>bumped_t1\<close> is
  \<open>transform_t1\<close> after one \<^verbatim>\<open>t1.vsCounterBump('hasOwnProperty')\<close>. \<open>busy_t1\<close> is
  \<open>transform_t1\<close> in the middle of its first \<^verbatim>\<open>_transform\<close>, of the chunk
  \<^verbatim>\<open>'h'\<close>, and \<open>marshal_t1\<close> is \<open>busy_t1\<close> with its mode set to
  \<^verbatim>\<open>'marshal'\<close>, as the tests set it.
\<close>

definition fresh_t1 :: vobj where
  "fresh_t1 = (plain ''TestTransform'')\<lparr>vs_name := Some ''t1''\<rparr>"

definition transform_t1 :: vobj where
  "transform_t1 = fresh_t1\<lparr>vs_marshalmode := Some Unspecified\<rparr>"

definition poisoned_t1 :: vobj where
  "poisoned_t1 = transform_t1\<lparr>vs_counters := [''hasOwnProperty'' \<mapsto> 1],
     emitted := [\<lparr>we_context = None, we_kind = ''hasOwnProperty'',
                  we_error = JError ''explicit drop''\<rparr>]\<rparr>"

definition bumped_t1 :: vobj where
  "bumped_t1 = transform_t1\<lparr>vs_counters := [''hasOwnProperty'' \<mapsto> 1]\<rparr>"

definition busy_t1 :: vobj where
  "busy_t1 = transform_t1\<lparr>vs_counters := [''ninputs'' \<mapsto> 1],
     vs_context := Some (ProvenanceValue (JStr ''h'') [])\<rparr>"

definition marshal_t1 :: vobj where
  "marshal_t1 = busy_t1\<lparr>vs_marshalmode := Some Marshal\<rparr>"

text \<open>
  \<open>committed_t1\<close> is \<open>transform_t1\<close> after that first \<^verbatim>\<open>_transform\<close> has pushed
  \<^verbatim>\<open>'1'\<close> once and called back: the context is clear again and the mode is
  \<^verbatim>\<open>'nomarshal'\<close>.
\<close>

definition committed_t1 :: vobj where
  "committed_t1 = transform_t1\<lparr>vs_counters := [''ninputs'' \<mapsto> 1, ''noutputs'' \<mapsto> 1],
     vs_marshalmode := Some Nomarshal, realpushed := [JStr ''1'']\<rparr>"



text \<open>A store with the single provenance value \<^verbatim>\<open>new ProvenanceValue('h')\<close>.\<close>

definition store_h :: "jsval pv_store" where
  "store_h = \<lparr>objects = [\<lparr>hpv_value = JStr ''h'', hpv_provenance = 0\<rparr>], arrays = [[]]\<rparr>"

text \<open>A heap whose object \<open>0\<close> is \<open>busy_t1\<close>; every other object is untouched.\<close>

definition heap_t1 :: heap where
  "heap_t1 = (\<lambda>a. plain ''Object'')(0 := busy_t1)"

text \<open>
  \<open>fresh_stage\<close> is a stream after \<^verbatim>\<open>wrapStream\<close>. In \<open>heap_stages\<close> the objects
  \<open>0\<close> and \<open>1\<close> are fresh stages and the rest is untouched; \<open>heap_piped\<close> is
  \<open>heap_stages\<close> after \<open>0\<close> has been piped into \<open>1\<close>.
\<close>

definition fresh_stage :: "string \<Rightarrow> string \<Rightarrow> vobj" where
  "fresh_stage cn nm = (plain cn)\<lparr>vs_name := Some nm, vs_upstreams := Some [], vs_downstreams := Some []\<rparr>"

definition heap_stages :: heap where
  "heap_stages = (\<lambda>a. plain ''Object'')(0 := fresh_stage ''ReadStream'' ''source'',
     1 := fresh_stage ''PassThrough'' ''passthru'')"

definition heap_piped :: heap where
  "heap_piped = (\<lambda>a. plain ''Object'')(
     0 := (fresh_stage ''ReadStream'' ''source'')\<lparr>vs_downstreams := Some [1]\<rparr>,
     1 := (fresh_stage ''PassThrough'' ''passthru'')\<lparr>vs_upstreams := Some [0]\<rparr>)"

text \<open>
  In \<open>heap_half\<close> the object \<open>1\<close> is \<open>transform_t1\<close>: instrumented as an object and as
  a transform, as the tests set their transforms up, but never by
  \<^verbatim>\<open>instrumentStream\<close>, so it has no lists.
\<close>

definition heap_half :: heap where
  "heap_half = (\<lambda>a. plain ''Object'')(0 := fresh_stage ''ReadStream'' ''source'', 1 := transform_t1)"






section \<open>The example objects are states of the code\<close>




lemma fresh_stage_reached:
  "instrumentObject nm (plain cn) = Inr ((plain cn)\<lparr>vs_name := Some nm\<rparr>)
   \<and> instrumentStream ((plain cn)\<lparr>vs_name := Some nm\<rparr>) = Inr (fresh_stage cn nm)"
  by (simp add: instrumentObject_def instrumentStream_def isInstrumented_def fresh_stage_def plain_def)

section \<open>Counters\<close>

lemma instrumentObject_counters:
  "instrumentObject name obj = Inr obj' \<Longrightarrow> vs_counters obj' = Map.empty"
  by (auto simp: instrumentObject_def split: if_splits)

lemma instrumentObject_fresh_t1:
  "instrumentObject ''t1'' (plain ''TestTransform'') = Inr fresh_t1"
  by (simp add: instrumentObject_def isInstrumented_def plain_def fresh_t1_def)

lemma vsCounterBump_regular:
  assumes "vs_counters this ''hasOwnProperty'' = None" and "k \<noteq> ''__proto__''"
  shows "vsCounterBump k this =
    Inr (this\<lparr>vs_counters := (vs_counters this)(k \<mapsto> (case vs_counters this k of None \<Rightarrow> 0 | Some n \<Rightarrow> n) + 1)\<rparr>)"
  using assms by (simp add: vsCounterBump_def call_hasOwnProperty_def assign_def Let_def)

lemma vsCounterBump_proto:
  "vs_counters this ''hasOwnProperty'' = None \<Longrightarrow> vsCounterBump ''__proto__'' this = Inr this"
  by (simp add: vsCounterBump_def call_hasOwnProperty_def assign_def Let_def)

lemma vsCounterBump_poisoned:
  "vs_counters this ''hasOwnProperty'' \<noteq> None \<Longrightarrow> vsCounterBump k this = Inl TypeError"
  by (simp add: vsCounterBump_def call_hasOwnProperty_def)

lemma vsCounterBump_frame:
  "vsCounterBump k this = Inr t \<Longrightarrow>
     vs_name t = vs_name this \<and> vs_context t = vs_context this \<and>
     vs_marshalmode t = vs_marshalmode this \<and> realpushed t = realpushed this \<and>
     emitted t = emitted this \<and> vs_upstreams t = vs_upstreams this \<and>
     vs_downstreams t = vs_downstreams this \<and> ps_streams t = ps_streams this \<and>
     constructor_name t = constructor_name this"
  by (auto simp: vsCounterBump_def call_hasOwnProperty_def assign_def Let_def split: if_splits)

text \<open>
  Away from the two names that the counter object's prototype reserves, \<open>n\<close> calls of
  \<^verbatim>\<open>vsCounterBump(k)\<close> add \<open>n\<close> to the counter \<open>k\<close>, which starts absent and is then
  read as \<open>0\<close>, and touch no other counter.
\<close>

lemma bumps_counts:
  assumes "vs_counters this ''hasOwnProperty'' = None"
    and "k \<noteq> ''hasOwnProperty''" and "k \<noteq> ''__proto__''"
  shows "\<exists>this'. bumps k n this = Inr this' \<and>
           vs_counters this' = (if n = 0 then vs_counters this
              else (vs_counters this)(k \<mapsto> (case vs_counters this k of None \<Rightarrow> 0 | Some m \<Rightarrow> m) + n))"
  using assms
proof (induction n arbitrary: this)
  case 0
  then show ?case by simp
next
  case (Suc n)
  let ?t1 = "this\<lparr>vs_counters := (vs_counters this)(k \<mapsto> (case vs_counters this k of None \<Rightarrow> 0 | Some m \<Rightarrow> m) + 1)\<rparr>"
  have first: "vsCounterBump k this = Inr ?t1"
    using Suc.prems by (simp add: vsCounterBump_regular)
  have ok: "vs_counters ?t1 ''hasOwnProperty'' = None"
    using Suc.prems by simp
  from Suc.IH[OF ok Suc.prems(2) Suc.prems(3)]
  obtain t' where t': "bumps k n ?t1 = Inr t'"
    "vs_counters t' = (if n = 0 then vs_counters ?t1
              else (vs_counters ?t1)(k \<mapsto> (case vs_counters ?t1 k of None \<Rightarrow> 0 | Some m \<Rightarrow> m) + n))"
    by blast
  show ?case using first t' by (auto split: option.splits)
qed

lemma bumps_from_fresh:
  assumes "instrumentObject name obj = Inr this"
    and "k \<noteq> ''hasOwnProperty''" and "k \<noteq> ''__proto__''"
  shows "vs_counters this k = None \<and>
         (\<exists>this'. bumps k (Suc n) this = Inr this' \<and> vs_counters this' k = Some (Suc n))"
proof -
  have empty: "vs_counters this = Map.empty"
    using assms(1) by (rule instrumentObject_counters)
  then have ok: "vs_counters this ''hasOwnProperty'' = None" by simp
  from bumps_counts[OF ok assms(2) assms(3), of "Suc n"] empty
  show ?thesis by auto
qed

text \<open>
  C9. The claim is that for every counter name \<open>k\<close> the key is absent before the first
  \<^verbatim>\<open>vsCounterBump(k)\<close> and maps to \<open>N\<close> after \<open>N\<close> calls. For the name
  \<^verbatim>\<open>hasOwnProperty\<close> the code does not do so: on the freshly instrumented object
  \<open>fresh_t1\<close> the second of two consecutive calls throws a TypeError, because the first
  call stored the counter over the method the second call needs.
\<close>

theorem vsCounterBump_hasOwnProperty_twice:
  "instrumentObject ''t1'' (plain ''TestTransform'') = Inr fresh_t1
   \<and> vs_counters fresh_t1 ''hasOwnProperty'' = None
   \<and> bumps ''hasOwnProperty'' (Suc 0) fresh_t1
       = Inr (fresh_t1\<lparr>vs_counters := [''hasOwnProperty'' \<mapsto> 1]\<rparr>)
   \<and> bumps ''hasOwnProperty'' (Suc (Suc 0)) fresh_t1 = Inl TypeError"
  by (simp add: instrumentObject_fresh_t1)
    (simp add: vsCounterBump_def call_hasOwnProperty_def assign_def fresh_t1_def plain_def)

section \<open>Warnings\<close>

lemma vsWarn_regular:
  assumes "vs_name this = Some nm" and "is_Error err"
    and "vs_counters this ''hasOwnProperty'' = None" and "kind \<noteq> ''__proto__''"
  shows "vsWarn err kind this =
     Inr (this\<lparr>vs_counters := (vs_counters this)(kind \<mapsto> (case vs_counters this kind of None \<Rightarrow> 0 | Some n \<Rightarrow> n) + 1),
              emitted := emitted this @
                [\<lparr>we_context = (case vs_context this of None \<Rightarrow> None
                     | Some c \<Rightarrow> Some (ProvenanceValue (pv_value c)
                         (pv_provenance c @ [\<lparr>pvp_source = nm, pvp_input = ninputs_or_0 this\<rparr>]))),
                  we_kind = kind, we_error = err\<rparr>]\<rparr>)"
  using assms
  by (simp add: vsWarn_def isInstrumented_def withSource_def pv_next_def vsCounterBump_regular
      emit_warn_def split: option.splits)

lemma vsWarn_proto:
  assumes "vs_name this = Some nm" and "is_Error err"
    and "vs_counters this ''hasOwnProperty'' = None" and "vs_context this = None"
  shows "vsWarn err ''__proto__'' this = Inr (emit_warn None ''__proto__'' err this)"
  using assms by (simp add: vsWarn_def isInstrumented_def vsCounterBump_proto)

lemma vsWarn_frame:
  "vsWarn err kind this = Inr t \<Longrightarrow>
     vs_name t = vs_name this \<and> vs_context t = vs_context this \<and>
     vs_marshalmode t = vs_marshalmode this \<and> realpushed t = realpushed this"
  by (auto simp: vsWarn_def emit_warn_def split: if_splits sum.splits option.splits
      dest: vsCounterBump_frame)

text \<open>
  C8. The claim is that every \<^verbatim>\<open>vsWarn(err, kind)\<close> on an instrumented object adds
  one to the counter \<open>kind\<close> and emits a \<^verbatim>\<open>warn\<close> event. With the kind
  \<^verbatim>\<open>hasOwnProperty\<close> the first warning on \<open>transform_t1\<close> is counted and emitted and
  leaves \<open>poisoned_t1\<close>; the second one throws a TypeError from \<^verbatim>\<open>vsCounterBump\<close>, so
  it is neither counted nor emitted.
\<close>

theorem vsWarn_hasOwnProperty_twice:
  "vsWarn (JError ''explicit drop'') ''hasOwnProperty'' transform_t1 = Inr poisoned_t1
   \<and> vsWarn (JError ''explicit drop'') ''hasOwnProperty'' poisoned_t1 = Inl TypeError"
  by (simp add: vsWarn_def vsCounterBump_def call_hasOwnProperty_def assign_def isInstrumented_def is_Error_def emit_warn_def
      poisoned_t1_def transform_t1_def fresh_t1_def plain_def)

section \<open>Provenance values\<close>

lemma pv_next_cong:
  "vs_name t = vs_name this \<Longrightarrow> vs_counters t ''ninputs'' = vs_counters this ''ninputs'' \<Longrightarrow>
     pv_next c v t = pv_next c v this"
  by (simp add: pv_next_def ninputs_or_0_def split: option.splits)

lemma ProvenanceValue_next_result:
  assumes "vs_name source = Some nm" and "valid_ref st this"
  shows "\<exists>st'. ProvenanceValue_next this p source st = Inr (length (objects st), st')
     \<and> length (objects st') = Suc (length (objects st))
     \<and> length (arrays st') = Suc (Suc (length (arrays st)))
     \<and> hpv_value (objects st' ! length (objects st)) = p
     \<and> hpv_provenance (objects st' ! length (objects st)) = Suc (length (arrays st))
     \<and> arrays st' ! Suc (length (arrays st)) =
         arrays st ! hpv_provenance (objects st ! this) @ [\<lparr>pvp_source = nm, pvp_input = ninputs_or_0 source\<rparr>]
     \<and> (\<forall>r < length (objects st). objects st' ! r = objects st ! r)
     \<and> (\<forall>a < length (arrays st). arrays st' ! a = arrays st ! a)"
  using assms
  by (auto simp: ProvenanceValue_next_def new_ProvenanceValue_def array_slice0_def
      set_pv_provenance_def array_push_def valid_ref_def Let_def nth_append)

text \<open>The method on values computes what the method on the store leaves in the store.\<close>

lemma pv_next_refines:
  assumes "valid_ref st this" and "ProvenanceValue_next this p source st = Inr (rv, st')"
  shows "pv_next (pv_at st this) p source = Inr (pv_at st' rv)"
proof -
  from assms(2) obtain nm where nm: "vs_name source = Some nm"
    by (auto simp: ProvenanceValue_next_def split: option.splits)
  from ProvenanceValue_next_result[OF nm assms(1), of p] assms(2)
  show ?thesis by (auto simp: pv_next_def pv_at_def nm)
qed

text \<open>
  C3. For a provenance value \<open>v\<close> of the store, a payload \<open>p\<close> and an instrumented
  object \<open>s\<close> named \<open>nm\<close>, \<^verbatim>\<open>v.next(p, s)\<close> returns a reference \<open>rv\<close> that was not
  allocated before; the new object's payload is \<open>p\<close> and its history is the history of
  \<open>v\<close> followed by the one entry with source \<open>nm\<close> and input the counter
  \<^verbatim>\<open>ninputs\<close> of \<open>s\<close>, or \<open>0\<close> when \<open>s\<close> has no such counter. Every object and every
  array allocated before the call is as it was, so the payload and the history of \<open>v\<close>
  are unchanged: the history was copied and the entry was pushed onto the copy.
\<close>

theorem ProvenanceValue_next_appends:
  assumes "vs_name s = Some nm" and "valid_ref st v"
  shows "\<exists>rv st'. ProvenanceValue_next v p s st = Inr (rv, st')
     \<and> \<not> rv < length (objects st) \<and> valid_ref st' rv
     \<and> hpv_value (objects st' ! rv) = p
     \<and> arrays st' ! hpv_provenance (objects st' ! rv) =
         arrays st ! hpv_provenance (objects st ! v)
           @ [\<lparr>pvp_source = nm,
               pvp_input = (case vs_counters s ''ninputs'' of None \<Rightarrow> 0 | Some n \<Rightarrow> n)\<rparr>]
     \<and> hpv_value (objects st' ! v) = hpv_value (objects st ! v)
     \<and> hpv_provenance (objects st' ! v) = hpv_provenance (objects st ! v)
     \<and> arrays st' ! hpv_provenance (objects st' ! v) = arrays st ! hpv_provenance (objects st ! v)
     \<and> (\<forall>r. r < length (objects st) \<longrightarrow> objects st' ! r = objects st ! r)
     \<and> (\<forall>a. a < length (arrays st) \<longrightarrow> arrays st' ! a = arrays st ! a)"
proof -
  from ProvenanceValue_next_result[OF assms, of p] obtain st' where
    r: "ProvenanceValue_next v p s st = Inr (length (objects st), st')"
    and lo: "length (objects st') = Suc (length (objects st))"
    and la: "length (arrays st') = Suc (Suc (length (arrays st)))"
    and val: "hpv_value (objects st' ! length (objects st)) = p"
    and ref: "hpv_provenance (objects st' ! length (objects st)) = Suc (length (arrays st))"
    and hist: "arrays st' ! Suc (length (arrays st)) =
         arrays st ! hpv_provenance (objects st ! v) @ [\<lparr>pvp_source = nm, pvp_input = ninputs_or_0 s\<rparr>]"
    and objs: "\<forall>r < length (objects st). objects st' ! r = objects st ! r"
    and arrs: "\<forall>a < length (arrays st). arrays st' ! a = arrays st ! a"
    by blast
  have v: "v < length (objects st)" "hpv_provenance (objects st ! v) < length (arrays st)"
    using assms(2) by (simp_all add: valid_ref_def)
  have same: "objects st' ! v = objects st ! v" using objs v by simp
  have valid: "valid_ref st' (length (objects st))"
    by (simp add: valid_ref_def lo la ref)
  have "arrays st' ! hpv_provenance (objects st' ! v) = arrays st ! hpv_provenance (objects st ! v)"
    using same arrs v by simp
  with r valid val ref hist same objs arrs show ?thesis
    by (auto simp: ninputs_or_0_def)
qed

theorem ProvenanceValue_next_appends_witness:
  "\<exists>st'. ProvenanceValue_next 0 (JStr ''1'') busy_t1 store_h = Inr (1, st')
     \<and> hpv_value (objects st' ! 1) = JStr ''1''
     \<and> arrays st' ! hpv_provenance (objects st' ! 1) = [\<lparr>pvp_source = ''t1'', pvp_input = 1\<rparr>]
     \<and> hpv_value (objects st' ! 0) = JStr ''h''
     \<and> arrays st' ! hpv_provenance (objects st' ! 0) = []"
proof -
  have nm: "vs_name busy_t1 = Some ''t1''"
    by (simp add: busy_t1_def transform_t1_def fresh_t1_def plain_def)
  have ok: "valid_ref store_h 0"
    by (simp add: valid_ref_def store_h_def)
  have cnt: "vs_counters busy_t1 ''ninputs'' = Some 1"
    by (simp add: busy_t1_def)
  have run: "ProvenanceValue_next 0 (JStr ''1'') busy_t1 store_h
     = Inr (1, \<lparr>objects = [\<lparr>hpv_value = JStr ''h'', hpv_provenance = 0\<rparr>,
                          \<lparr>hpv_value = JStr ''1'', hpv_provenance = 2\<rparr>],
               arrays = [[], [], [\<lparr>pvp_source = ''t1'', pvp_input = 1\<rparr>]]\<rparr>)"
    by (simp add: ProvenanceValue_next_def new_ProvenanceValue_def array_slice0_def
        set_pv_provenance_def array_push_def Let_def nm store_h_def ninputs_or_0_def cnt)
  from ProvenanceValue_next_appends[OF nm ok, of "JStr ''1''"] run
  show ?thesis by (auto simp: cnt store_h_def)
qed

section \<open>The emission primitive\<close>

lemma vsPush_null:
  "isInstrumented this \<Longrightarrow> vsPush JNull this = Inr (this\<lparr>realpushed := realpushed this @ [JNull]\<rparr>)"
  by (simp add: vsPush_def vs_realpush_def)

lemma vsPush_no_context:
  "chunk \<noteq> JNull \<Longrightarrow> vs_context this = None \<Longrightarrow> vsPush chunk this = Inl AssertionError"
  by (simp add: vsPush_def)

lemma vsPush_success_context:
  "vsPush chunk this = Inr t \<Longrightarrow> chunk \<noteq> JNull \<Longrightarrow> vs_context this \<noteq> None"
  by (auto simp: vsPush_def split: if_splits)

lemma vsPush_regular:
  assumes "vs_name this = Some nm" and "vs_context this = Some c" and "chunk \<noteq> JNull"
    and "vs_counters this ''hasOwnProperty'' = None"
  shows "vsPush chunk this =
     Inr (this\<lparr>vs_counters := (vs_counters this)(''noutputs'' \<mapsto> (case vs_counters this ''noutputs'' of None \<Rightarrow> 0 | Some n \<Rightarrow> n) + 1),
              vs_marshalmode := (if vs_marshalmode this = Some Unspecified then Some Nomarshal else vs_marshalmode this),
              realpushed := realpushed this @
                [if vs_marshalmode this = Some Unspecified \<or> vs_marshalmode this = Some Nomarshal then chunk
                 else JPV (ProvenanceValue chunk (pv_provenance c @ [\<lparr>pvp_source = nm, pvp_input = ninputs_or_0 this\<rparr>]))]\<rparr>)"
  using assms
  by (simp add: vsPush_def isInstrumented_def vsCounterBump_regular Let_def vs_realpush_def
      pv_next_def ninputs_or_0_def)

lemma vsPush_frame:
  "vsPush chunk this = Inr t \<Longrightarrow>
     vs_name t = vs_name this \<and> vs_context t = vs_context this \<and> emitted t = emitted this"
  by (auto simp: vsPush_def vs_realpush_def Let_def
      split: if_splits sum.splits option.splits dest!: vsCounterBump_frame)

lemma vsPush_mode:
  "vsPush chunk this = Inr t \<Longrightarrow>
     vs_marshalmode t = (if chunk \<noteq> JNull \<and> vs_marshalmode this = Some Unspecified
                         then Some Nomarshal else vs_marshalmode this)"
  by (auto simp: vsPush_def vs_realpush_def Let_def
      split: if_splits sum.splits option.splits dest!: vsCounterBump_frame)

lemma vsPush_nomarshal_raw:
  "vsPush chunk this = Inr t \<Longrightarrow> vs_marshalmode this = Some Nomarshal \<Longrightarrow>
     realpushed t = realpushed this @ [chunk]"
  by (auto simp: vsPush_def vs_realpush_def Let_def
      split: if_splits sum.splits option.splits dest!: vsCounterBump_frame)

text \<open>
  C10. A \<^verbatim>\<open>push\<close> of a value other than \<^verbatim>\<open>null\<close> on a stage whose context is
  \<^verbatim>\<open>null\<close> fails an assertion; so whenever such a push returns, the stage had a
  context when it was called. A \<^verbatim>\<open>push(null)\<close> on an instrumented stage always
  returns, whatever the context, and hands \<^verbatim>\<open>null\<close> to the stream's own push.
\<close>

theorem vsPush_requires_context:
  "(chunk \<noteq> JNull \<and> vs_context this = None \<longrightarrow> vsPush chunk this = Inl AssertionError)
   \<and> (chunk \<noteq> JNull \<and> vsPush chunk this = Inr t \<longrightarrow> vs_context this \<noteq> None)
   \<and> (isInstrumented this \<longrightarrow> vsPush JNull this = Inr (this\<lparr>realpushed := realpushed this @ [JNull]\<rparr>))"
  using vsPush_no_context vsPush_success_context vsPush_null by blast

theorem vsPush_requires_context_witness:
  "vsPush (JStr ''1'') transform_t1 = Inl AssertionError
   \<and> vsPush (JStr ''1'') busy_t1 = Inr (busy_t1\<lparr>vs_counters := [''ninputs'' \<mapsto> 1, ''noutputs'' \<mapsto> 1],
        vs_marshalmode := Some Nomarshal, realpushed := [JStr ''1'']\<rparr>)
   \<and> vs_context busy_t1 \<noteq> None
   \<and> vsPush JNull transform_t1 = Inr (transform_t1\<lparr>realpushed := [JNull]\<rparr>)"
proof -
  have idle: "JStr ''1'' \<noteq> JNull \<and> vs_context transform_t1 = None"
    by (simp add: transform_t1_def fresh_t1_def plain_def)
  have ran: "vsPush (JStr ''1'') busy_t1 = Inr (busy_t1\<lparr>vs_counters := [''ninputs'' \<mapsto> 1, ''noutputs'' \<mapsto> 1],
        vs_marshalmode := Some Nomarshal, realpushed := [JStr ''1'']\<rparr>)"
    by (simp add: vsPush_def vsCounterBump_def call_hasOwnProperty_def assign_def isInstrumented_def vs_realpush_def Let_def
        busy_t1_def transform_t1_def fresh_t1_def plain_def)
  have inst: "isInstrumented transform_t1"
    by (simp add: isInstrumented_def transform_t1_def fresh_t1_def plain_def)
  have nonnull: "JStr ''1'' \<noteq> JNull" by simp
  from vsPush_requires_context[of "JStr ''1''" transform_t1] idle
  have a: "vsPush (JStr ''1'') transform_t1 = Inl AssertionError" by blast
  from vsPush_requires_context[of "JStr ''1''" busy_t1] ran nonnull
  have b: "vs_context busy_t1 \<noteq> None" by blast
  from vsPush_requires_context[of _ transform_t1] inst
  have c: "vsPush JNull transform_t1 = Inr (transform_t1\<lparr>realpushed := realpushed transform_t1 @ [JNull]\<rparr>)"
    by blast
  have "realpushed transform_t1 = []"
    by (simp add: transform_t1_def fresh_t1_def plain_def)
  with a b c ran show ?thesis by simp
qed

text \<open>
  C2, as the claim states it, fails: on \<open>committed_t1\<close>, an instrumented stage in mode
  \<^verbatim>\<open>'nomarshal'\<close> with no processing call in progress, \<^verbatim>\<open>push('1')\<close> fails the
  assertion on the context; nothing is counted and nothing reaches the engine.
\<close>

theorem vsPush_idle_counterexample:
  "isInstrumented committed_t1 \<and> vs_marshalmode committed_t1 = Some Nomarshal
   \<and> vsPush (JStr ''1'') committed_t1 = Inl AssertionError"
  by (simp add: vsPush_def isInstrumented_def committed_t1_def transform_t1_def fresh_t1_def plain_def)

text \<open>
  C2, amended. On an instrumented stage named \<open>nm\<close>: \<^verbatim>\<open>push(null)\<close> hands
  \<^verbatim>\<open>null\<close> to the engine and changes nothing else, so no counter moves. A push of
  another value without a context fails the assertion. A push of another value \<open>chunk\<close>
  under the context \<open>c\<close>, on a counter table without the key \<^verbatim>\<open>hasOwnProperty\<close>, adds
  one to \<^verbatim>\<open>noutputs\<close>, commits the mode \<^verbatim>\<open>'unspecified'\<close> to \<^verbatim>\<open>'nomarshal'\<close>,
  and hands to the engine \<open>chunk\<close> itself when the mode was \<^verbatim>\<open>'unspecified'\<close> or
  \<^verbatim>\<open>'nomarshal'\<close>, and otherwise the provenance value \<^verbatim>\<open>c.next(chunk, this)\<close>.
\<close>

theorem vsPush_emission:
  assumes "vs_name this = Some nm"
  shows "vsPush JNull this = Inr (this\<lparr>realpushed := realpushed this @ [JNull]\<rparr>)
   \<and> (chunk \<noteq> JNull \<and> vs_context this = None \<longrightarrow> vsPush chunk this = Inl AssertionError)
   \<and> (chunk \<noteq> JNull \<and> vs_context this = Some c \<and> vs_counters this ''hasOwnProperty'' = None \<longrightarrow>
        pv_next c chunk this = Inr (ProvenanceValue chunk
            (pv_provenance c @ [\<lparr>pvp_source = nm, pvp_input = ninputs_or_0 this\<rparr>]))
        \<and> vsPush chunk this =
          Inr (this\<lparr>vs_counters := (vs_counters this)(''noutputs'' \<mapsto>
                      (case vs_counters this ''noutputs'' of None \<Rightarrow> 0 | Some n \<Rightarrow> n) + 1),
                 vs_marshalmode := (if vs_marshalmode this = Some Unspecified then Some Nomarshal
                                    else vs_marshalmode this),
                 realpushed := realpushed this @
                   [if vs_marshalmode this = Some Unspecified \<or> vs_marshalmode this = Some Nomarshal
                    then chunk
                    else JPV (ProvenanceValue chunk
                      (pv_provenance c @ [\<lparr>pvp_source = nm, pvp_input = ninputs_or_0 this\<rparr>]))]\<rparr>))"
proof (intro conjI impI)
  show "vsPush JNull this = Inr (this\<lparr>realpushed := realpushed this @ [JNull]\<rparr>)"
    using assms by (simp add: vsPush_null isInstrumented_def)
next
  assume "chunk \<noteq> JNull \<and> vs_context this = None"
  then show "vsPush chunk this = Inl AssertionError" by (simp add: vsPush_no_context)
next
  assume "chunk \<noteq> JNull \<and> vs_context this = Some c \<and> vs_counters this ''hasOwnProperty'' = None"
  show "pv_next c chunk this = Inr (ProvenanceValue chunk
            (pv_provenance c @ [\<lparr>pvp_source = nm, pvp_input = ninputs_or_0 this\<rparr>]))"
    using assms by (simp add: pv_next_def)
next
  assume h: "chunk \<noteq> JNull \<and> vs_context this = Some c \<and> vs_counters this ''hasOwnProperty'' = None"
  then show "vsPush chunk this =
          Inr (this\<lparr>vs_counters := (vs_counters this)(''noutputs'' \<mapsto>
                      (case vs_counters this ''noutputs'' of None \<Rightarrow> 0 | Some n \<Rightarrow> n) + 1),
                 vs_marshalmode := (if vs_marshalmode this = Some Unspecified then Some Nomarshal
                                    else vs_marshalmode this),
                 realpushed := realpushed this @
                   [if vs_marshalmode this = Some Unspecified \<or> vs_marshalmode this = Some Nomarshal
                    then chunk
                    else JPV (ProvenanceValue chunk
                      (pv_provenance c @ [\<lparr>pvp_source = nm, pvp_input = ninputs_or_0 this\<rparr>]))]\<rparr>)"
    using assms vsPush_regular[of this nm c chunk] by simp
qed

theorem vsPush_emission_witness:
  "vsPush JNull marshal_t1 = Inr (marshal_t1\<lparr>realpushed := [JNull]\<rparr>)
   \<and> vsPush (JStr ''1'') transform_t1 = Inl AssertionError
   \<and> vsPush (JStr ''1'') busy_t1 =
       Inr (busy_t1\<lparr>vs_counters := [''ninputs'' \<mapsto> 1, ''noutputs'' \<mapsto> 1],
              vs_marshalmode := Some Nomarshal, realpushed := [JStr ''1'']\<rparr>)
   \<and> vsPush (JStr ''1'') marshal_t1 =
       Inr (marshal_t1\<lparr>vs_counters := [''ninputs'' \<mapsto> 1, ''noutputs'' \<mapsto> 1],
              realpushed := [JPV (ProvenanceValue (JStr ''1'')
                               [\<lparr>pvp_source = ''t1'', pvp_input = 1\<rparr>])]\<rparr>)"
proof -
  have n1: "vs_name marshal_t1 = Some ''t1''" and n2: "vs_name transform_t1 = Some ''t1''"
    and n3: "vs_name busy_t1 = Some ''t1''"
    by (simp_all add: marshal_t1_def busy_t1_def transform_t1_def fresh_t1_def plain_def)
  have a: "vsPush JNull marshal_t1 = Inr (marshal_t1\<lparr>realpushed := [JNull]\<rparr>)"
    using vsPush_emission[OF n1, of JNull undefined]
    by (simp add: marshal_t1_def busy_t1_def transform_t1_def fresh_t1_def plain_def)
  have b: "vsPush (JStr ''1'') transform_t1 = Inl AssertionError"
    using vsPush_emission[OF n2, of "JStr ''1''" undefined]
    by (simp add: transform_t1_def fresh_t1_def plain_def)
  have c: "vsPush (JStr ''1'') busy_t1 =
       Inr (busy_t1\<lparr>vs_counters := [''ninputs'' \<mapsto> 1, ''noutputs'' \<mapsto> 1],
              vs_marshalmode := Some Nomarshal, realpushed := [JStr ''1'']\<rparr>)"
    using vsPush_emission[OF n3, of "JStr ''1''" "ProvenanceValue (JStr ''h'') []"]
    by (simp add: busy_t1_def transform_t1_def fresh_t1_def plain_def)
  have d: "vsPush (JStr ''1'') marshal_t1 =
       Inr (marshal_t1\<lparr>vs_counters := [''ninputs'' \<mapsto> 1, ''noutputs'' \<mapsto> 1],
              realpushed := [JPV (ProvenanceValue (JStr ''1'')
                               [\<lparr>pvp_source = ''t1'', pvp_input = 1\<rparr>])]\<rparr>)"
    using vsPush_emission[OF n1, of "JStr ''1''" "ProvenanceValue (JStr ''h'') []"]
    by (simp add: marshal_t1_def busy_t1_def transform_t1_def fresh_t1_def plain_def ninputs_or_0_def)
  from a b c d show ?thesis by blast
qed

section \<open>The processing call\<close>

lemma vsTransform_reentrant:
  "vs_context this \<noteq> None \<Longrightarrow> vsTransform chunk this = Inl AssertionError"
  by (simp add: vsTransform_def)

lemma vsTransform_regular:
  assumes "vs_name this = Some nm" and "vs_context this = None"
    and "vs_counters this ''hasOwnProperty'' = None"
  shows "vsTransform chunk this =
     Inr (augment chunk,
          this\<lparr>vs_counters := (vs_counters this)(''ninputs'' \<mapsto>
                   (case vs_counters this ''ninputs'' of None \<Rightarrow> 0 | Some n \<Rightarrow> n) + 1),
               vs_context := Some (augment chunk)\<rparr>)"
  using assms by (simp add: vsTransform_def isInstrumented_def vsCounterBump_regular Let_def)

lemma augment_cases:
  "augment (JPV pv) = pv" "\<forall>pv. chunk \<noteq> JPV pv \<Longrightarrow> augment chunk = ProvenanceValue chunk []"
  by (auto simp: augment_def split: jsval.splits)

lemma perform_context:
  "perform a this = Inr t \<Longrightarrow> vs_context t = vs_context this \<and> vs_name t = vs_name this"
  by (cases a) (auto dest: vsPush_frame vsWarn_frame)

lemma run_real_context:
  "run_real acts this = Inr t \<Longrightarrow> vs_context t = vs_context this \<and> vs_name t = vs_name this"
proof (induction acts arbitrary: this)
  case Nil
  then show ?case by simp
next
  case (Cons a acts)
  then show ?case
    by (auto split: sum.splits dest!: perform_context)
qed

lemma vsTransform_callback_arity:
  "3 \<le> length args \<Longrightarrow> vsTransform_callback augmented args self = Inl AssertionError"
  by (simp add: vsTransform_callback_def)

lemma vsTransform_callback_clears:
  "vsTransform_callback augmented args self = Inr (s, forwarded) \<Longrightarrow>
     vs_context s = None \<and> forwarded = take 1 args \<and> vs_context self = Some augmented"
  by (auto simp: vsTransform_callback_def split: if_splits sum.splits)

lemma vsTransform_callback_plain:
  assumes "length args < 3" and "vs_context self = Some augmented"
    and "truthy (argument args 0) \<or> length args \<le> 1"
  shows "vsTransform_callback augmented args self = Inr (self\<lparr>vs_context := None\<rparr>, take 1 args)"
  using assms by (auto simp: vsTransform_callback_def)

lemma vsTransform_callback_result:
  assumes "length args < 3" and "vs_context self = Some augmented"
    and "\<not> truthy (argument args 0)" and "length args > 1"
    and "vsPush (argument args 1) self = Inr s1"
  shows "vsTransform_callback augmented args self = Inr (s1\<lparr>vs_context := None\<rparr>, take 1 args)"
  using assms vsPush_frame[OF assms(5)] by (auto simp: vsTransform_callback_def)

text \<open>
  C4. The claim is that a processing call on a stage whose context is clear adds one to
  the inputs counter and sets the context. \<open>bumped_t1\<close> is such a stage: it is what one
  \<^verbatim>\<open>vsCounterBump('hasOwnProperty')\<close> leaves of the freshly instrumented transform
  \<open>transform_t1\<close>. On it the call throws a TypeError from
  \<^verbatim>\<open>vsCounterBump('ninputs')\<close> instead: no input is counted, the context is not set
  and the real \<^verbatim>\<open>_transform\<close> is never called.
\<close>

theorem vsTransform_poisoned:
  "vsCounterBump ''hasOwnProperty'' transform_t1 = Inr bumped_t1
   \<and> isInstrumented bumped_t1 \<and> vs_context bumped_t1 = None
   \<and> vsTransform (JStr ''h'') bumped_t1 = Inl TypeError
   \<and> processing_call (JStr ''h'') [] [] bumped_t1 = Inl TypeError"
  by (simp add: processing_call_def vsTransform_def vsCounterBump_def call_hasOwnProperty_def
      assign_def isInstrumented_def bumped_t1_def transform_t1_def fresh_t1_def plain_def)

text \<open>
  On a stage whose counter table is intact the processing call runs as intended:
  entry counts the input and sets the context to the incoming provenance value, the
  context stays while the real \<^verbatim>\<open>_transform\<close> pushes and warns, a callback with three
  or more arguments fails the assertion, and a callback that returns has cleared the
  context and passes on at most its first argument.
\<close>

lemma processing_call_regular:
  assumes "vs_name this = Some nm" and "vs_context this = None"
    and "vs_counters this ''hasOwnProperty'' = None"
  shows "\<exists>t1. vsTransform chunk this = Inr (augment chunk, t1)
     \<and> vs_counters t1 = (vs_counters this)(''ninputs'' \<mapsto> ninputs_or_0 this + 1)
     \<and> vs_context t1 = Some (augment chunk)
     \<and> (\<forall>t2. run_real acts t1 = Inr t2 \<longrightarrow>
           vs_context t2 = Some (augment chunk)
           \<and> processing_call chunk acts args this = vsTransform_callback (augment chunk) args t2
           \<and> (3 \<le> length args \<longrightarrow> processing_call chunk acts args this = Inl AssertionError)
           \<and> (\<forall>s forwarded. processing_call chunk acts args this = Inr (s, forwarded) \<longrightarrow>
                 vs_context s = None \<and> forwarded = take 1 args))"
proof -
  let ?t1 = "this\<lparr>vs_counters := (vs_counters this)(''ninputs'' \<mapsto>
                   (case vs_counters this ''ninputs'' of None \<Rightarrow> 0 | Some n \<Rightarrow> n) + 1),
               vs_context := Some (augment chunk)\<rparr>"
  have enter: "vsTransform chunk this = Inr (augment chunk, ?t1)"
    using assms by (rule vsTransform_regular)
  have "\<forall>t2. run_real acts ?t1 = Inr t2 \<longrightarrow>
           vs_context t2 = Some (augment chunk)
           \<and> processing_call chunk acts args this = vsTransform_callback (augment chunk) args t2
           \<and> (3 \<le> length args \<longrightarrow> processing_call chunk acts args this = Inl AssertionError)
           \<and> (\<forall>s forwarded. processing_call chunk acts args this = Inr (s, forwarded) \<longrightarrow>
                 vs_context s = None \<and> forwarded = take 1 args)"
  proof (intro allI impI)
    fix t2 assume run: "run_real acts ?t1 = Inr t2"
    have ctx: "vs_context t2 = Some (augment chunk)"
      using run_real_context[OF run] by simp
    have call: "processing_call chunk acts args this = vsTransform_callback (augment chunk) args t2"
      using run by (simp add: processing_call_def enter)
    show "vs_context t2 = Some (augment chunk)
           \<and> processing_call chunk acts args this = vsTransform_callback (augment chunk) args t2
           \<and> (3 \<le> length args \<longrightarrow> processing_call chunk acts args this = Inl AssertionError)
           \<and> (\<forall>s forwarded. processing_call chunk acts args this = Inr (s, forwarded) \<longrightarrow>
                 vs_context s = None \<and> forwarded = take 1 args)"
      using ctx call vsTransform_callback_arity[of args "augment chunk" t2]
        vsTransform_callback_clears[of "augment chunk" args t2]
      by auto
  qed
  with enter show ?thesis by (auto simp: ninputs_or_0_def)
qed

section \<open>Marshal mode\<close>

lemma instrument_mode:
  "instrumentObject n obj = Inr d \<Longrightarrow> vs_marshalmode d = vs_marshalmode obj"
  "instrumentStream obj = Inr d \<Longrightarrow> vs_marshalmode d = vs_marshalmode obj"
  by (auto simp: instrumentObject_def instrumentStream_def split: if_splits)

lemma instrument_if_needed_mode:
  "instrument_if_needed prop obj = Inr d \<Longrightarrow> vs_marshalmode d = vs_marshalmode obj"
  by (auto simp: instrument_if_needed_def instrumentObject_def instrumentStream_def
      split: if_splits sum.splits)

lemma push_pair_mode:
  "vs_marshalmode (snd (push_pair a b h) c) = vs_marshalmode (h c)"
  by (auto simp: push_pair_def Let_def split: option.splits)

lemma vsRecordPipe_mode:
  "vs_marshalmode (snd (vsRecordPipe a b h) c) = vs_marshalmode (h c)"
  by (auto simp: vsRecordPipe_def push_pair_mode split: sum.splits
      dest: instrument_if_needed_mode)

lemma vsRecordUnpipe_mode:
  "vs_marshalmode (snd (vsRecordUnpipe a b h) c) = vs_marshalmode (h c)"
  by (auto simp: vsRecordUnpipe_def Let_def split: if_splits option.splits)

lemma stream_on_pipe_mode:
  "vs_marshalmode (snd (stream_on_pipe a b h) c) = vs_marshalmode (h c)"
  by (auto simp: stream_on_pipe_def Let_def vsRecordPipe_mode split: sum.splits
      dest: instrument_if_needed_mode)

lemma transform_on_pipe_mode:
  "vs_marshalmode (snd (transform_on_pipe u h) c) =
     (if pipe_target h u = Some c \<and> vs_marshalmode (h c) = Some Unspecified then Some Marshal
      else vs_marshalmode (h c))"
  by (auto simp: transform_on_pipe_def split: option.splits)

lemma on_object_apply:
  "snd (on_object a f h) c = (if c = a then (case f (h a) of Inl e \<Rightarrow> h a | Inr obj \<Rightarrow> obj) else h c)"
  by (auto simp: on_object_def split: sum.splits)

lemma vsTransform_mode:
  "vsTransform chunk this = Inr (aug, t) \<Longrightarrow> vs_marshalmode t = vs_marshalmode this"
  by (auto simp: vsTransform_def Let_def split: if_splits sum.splits dest!: vsCounterBump_frame)

lemma vsFlush_mode:
  "vsFlush this = Inr (aug, t) \<Longrightarrow> vs_marshalmode t = vs_marshalmode this"
  by (auto simp: vsFlush_def Let_def split: if_splits)

lemma vsFlush_callback_mode:
  "vsFlush_callback aug args this = Inr (t, fw) \<Longrightarrow> vs_marshalmode t = vs_marshalmode this"
  by (auto simp: vsFlush_callback_def split: if_splits)

lemma vsTransform_callback_mode:
  "vsTransform_callback aug args this = Inr (t, fw) \<Longrightarrow>
     vs_marshalmode t =
       (if \<not> truthy (argument args 0) \<and> length args > 1 \<and> argument args 1 \<noteq> JNull
           \<and> vs_marshalmode this = Some Unspecified
        then Some Nomarshal else vs_marshalmode this)"
  by (auto simp: vsTransform_callback_def split: if_splits sum.splits dest!: vsPush_mode)

lemma fire_mode:
  assumes changed: "vs_marshalmode (snd (fire ev h) a) \<noteq> vs_marshalmode (h a)"
  shows "vs_marshalmode (h a) = Some Unspecified \<and>
     (connects h ev a \<and> vs_marshalmode (snd (fire ev h) a) = Some Marshal
      \<or> emits ev a \<and> vs_marshalmode (snd (fire ev h) a) = Some Nomarshal)"
proof (cases ev)
  case (EvCounterBump b k)
  with changed show ?thesis
    by (auto simp: on_object_apply split: if_splits sum.splits dest!: vsCounterBump_frame)
next
  case (EvWarn b err kind)
  with changed show ?thesis
    by (auto simp: on_object_apply split: if_splits sum.splits dest!: vsWarn_frame)
next
  case (EvRecordPipe b c)
  with changed show ?thesis by (simp add: vsRecordPipe_mode)
next
  case (EvRecordUnpipe b c)
  with changed show ?thesis by (simp add: vsRecordUnpipe_mode)
next
  case (EvStreamPipe b c)
  with changed show ?thesis by (simp add: stream_on_pipe_mode)
next
  case (EvTransformPipe u)
  with changed show ?thesis by (simp add: transform_on_pipe_mode split: if_splits)
next
  case (EvTransform b chunk)
  with changed show ?thesis
    by (auto simp: on_object_apply dropping_def split: if_splits sum.splits dest!: vsTransform_mode)
next
  case (EvTransformDone b aug args)
  with changed show ?thesis
    by (auto simp: on_object_apply keeping_def split: if_splits sum.splits
        dest!: vsTransform_callback_mode)
next
  case (EvFlush b)
  with changed show ?thesis
    by (auto simp: on_object_apply dropping_def split: if_splits sum.splits dest!: vsFlush_mode)
next
  case (EvFlushDone b aug args)
  with changed show ?thesis
    by (auto simp: on_object_apply keeping_def split: if_splits sum.splits dest!: vsFlush_callback_mode)
next
  case (EvPush b chunk)
  with changed show ?thesis
    by (auto simp: on_object_apply split: if_splits sum.splits dest!: vsPush_mode)
qed

lemma fire_committed:
  assumes "vs_marshalmode (h a) = Some m" and "m \<noteq> Unspecified"
  shows "vs_marshalmode (snd (fire ev h) a) = Some m"
  using fire_mode[of ev h a] assms by auto

lemma fire_all_committed:
  assumes "vs_marshalmode (h a) = Some m" and "m \<noteq> Unspecified"
  shows "vs_marshalmode (fire_all evs h a) = Some m"
  using assms
proof (induction evs arbitrary: h)
  case Nil
  then show ?case by simp
next
  case (Cons ev evs)
  have "vs_marshalmode (snd (fire ev h) a) = Some m"
    using Cons.prems by (rule fire_committed)
  then show ?case using Cons.IH Cons.prems(2) by simp
qed

text \<open>
  The mode as a state machine over the events of a running pipeline.
  \<^verbatim>\<open>instrumentTransform\<close> throws on an object that is not instrumented and on every
  other object returns it with the mode \<^verbatim>\<open>'unspecified'\<close>, whatever the mode was. When
  the \<^verbatim>\<open>'pipe'\<close> listener of an instrumented transform looks at a stage whose mode is
  \<^verbatim>\<open>'unspecified'\<close>, the mode becomes \<^verbatim>\<open>'marshal'\<close>. When a stage whose mode is
  \<^verbatim>\<open>'unspecified'\<close> pushes a value other than \<^verbatim>\<open>null\<close>, the mode becomes
  \<^verbatim>\<open>'nomarshal'\<close>, and under a context and with an intact counter table such a push
  does succeed and hands on the raw value. No event changes a mode in any other way: an
  event that changes the mode of \<open>a\<close> finds it \<^verbatim>\<open>'unspecified'\<close> and either connects
  \<open>a\<close> and leaves \<^verbatim>\<open>'marshal'\<close>, or is an emission by \<open>a\<close> and leaves
  \<^verbatim>\<open>'nomarshal'\<close>. So a stage in mode \<^verbatim>\<open>'nomarshal'\<close> stays in it through every
  sequence of events, pipes into instrumented transforms included, and every push it then
  completes hands the raw value to the engine.
\<close>

lemma marshalmode_transitions:
  "(\<not> isInstrumented obj \<longrightarrow> instrumentTransform obj = Inl AssertionError)
   \<and> (isInstrumented obj \<longrightarrow>
        instrumentTransform obj = Inr (obj\<lparr>vs_marshalmode := Some Unspecified\<rparr>))
   \<and> (pipe_target h u = Some a \<and> vs_marshalmode (h a) = Some Unspecified \<longrightarrow>
        fire (EvTransformPipe u) h = (None, h(a := (h a)\<lparr>vs_marshalmode := Some Marshal\<rparr>)))
   \<and> (chunk \<noteq> JNull \<and> vs_marshalmode this = Some Unspecified \<and> vs_name this = Some nm
        \<and> vs_context this = Some c \<and> vs_counters this ''hasOwnProperty'' = None \<longrightarrow>
        (\<exists>t'. vsPush chunk this = Inr t' \<and> vs_marshalmode t' = Some Nomarshal
              \<and> realpushed t' = realpushed this @ [chunk]))
   \<and> (chunk \<noteq> JNull \<and> vs_marshalmode this = Some Unspecified \<and> vsPush chunk this = Inr t''
        \<longrightarrow> vs_marshalmode t'' = Some Nomarshal)
   \<and> (vs_marshalmode (snd (fire ev h) a) \<noteq> vs_marshalmode (h a) \<longrightarrow>
        vs_marshalmode (h a) = Some Unspecified
        \<and> (connects h ev a \<and> vs_marshalmode (snd (fire ev h) a) = Some Marshal
           \<or> emits ev a \<and> vs_marshalmode (snd (fire ev h) a) = Some Nomarshal))
   \<and> (vs_marshalmode (h a) = Some Nomarshal \<longrightarrow>
        vs_marshalmode (fire_all evs h a) = Some Nomarshal
        \<and> (\<forall>v s. vsPush v (fire_all evs h a) = Inr s \<longrightarrow>
              realpushed s = realpushed (fire_all evs h a) @ [v]
              \<and> vs_marshalmode s = Some Nomarshal))"
proof (intro conjI impI allI)
  assume "\<not> isInstrumented obj"
  then show "instrumentTransform obj = Inl AssertionError"
    by (simp add: instrumentTransform_def)
next
  assume "isInstrumented obj"
  then show "instrumentTransform obj = Inr (obj\<lparr>vs_marshalmode := Some Unspecified\<rparr>)"
    by (simp add: instrumentTransform_def)
next
  assume "pipe_target h u = Some a \<and> vs_marshalmode (h a) = Some Unspecified"
  then show "fire (EvTransformPipe u) h = (None, h(a := (h a)\<lparr>vs_marshalmode := Some Marshal\<rparr>))"
    by (simp add: transform_on_pipe_def)
next
  assume p: "chunk \<noteq> JNull \<and> vs_marshalmode this = Some Unspecified \<and> vs_name this = Some nm
        \<and> vs_context this = Some c \<and> vs_counters this ''hasOwnProperty'' = None"
  then have "vsPush chunk this =
     Inr (this\<lparr>vs_counters := (vs_counters this)(''noutputs'' \<mapsto> (case vs_counters this ''noutputs'' of None \<Rightarrow> 0 | Some n \<Rightarrow> n) + 1),
              vs_marshalmode := (if vs_marshalmode this = Some Unspecified then Some Nomarshal else vs_marshalmode this),
              realpushed := realpushed this @
                [if vs_marshalmode this = Some Unspecified \<or> vs_marshalmode this = Some Nomarshal then chunk
                 else JPV (ProvenanceValue chunk (pv_provenance c @ [\<lparr>pvp_source = nm, pvp_input = ninputs_or_0 this\<rparr>]))]\<rparr>)"
    by (intro vsPush_regular) simp_all
  with p show "\<exists>t'. vsPush chunk this = Inr t' \<and> vs_marshalmode t' = Some Nomarshal
              \<and> realpushed t' = realpushed this @ [chunk]"
    by simp
next
  assume "chunk \<noteq> JNull \<and> vs_marshalmode this = Some Unspecified \<and> vsPush chunk this = Inr t''"
  then show "vs_marshalmode t'' = Some Nomarshal"
    by (auto dest: vsPush_mode)
next
  assume "vs_marshalmode (snd (fire ev h) a) \<noteq> vs_marshalmode (h a)"
  then have "vs_marshalmode (h a) = Some Unspecified \<and>
     (connects h ev a \<and> vs_marshalmode (snd (fire ev h) a) = Some Marshal
      \<or> emits ev a \<and> vs_marshalmode (snd (fire ev h) a) = Some Nomarshal)"
    by (rule fire_mode)
  then show "vs_marshalmode (h a) = Some Unspecified"
    and "connects h ev a \<and> vs_marshalmode (snd (fire ev h) a) = Some Marshal
      \<or> emits ev a \<and> vs_marshalmode (snd (fire ev h) a) = Some Nomarshal"
    by simp_all
next
  assume "vs_marshalmode (h a) = Some Nomarshal"
  then show "vs_marshalmode (fire_all evs h a) = Some Nomarshal"
    by (rule fire_all_committed) simp
next
  fix v s
  assume n: "vs_marshalmode (h a) = Some Nomarshal" and r: "vsPush v (fire_all evs h a) = Inr s"
  have m: "vs_marshalmode (fire_all evs h a) = Some Nomarshal"
    using n by (rule fire_all_committed) simp
  show "realpushed s = realpushed (fire_all evs h a) @ [v]"
    using r m by (rule vsPush_nomarshal_raw)
  show "vs_marshalmode s = Some Nomarshal"
    using vsPush_mode[OF r] m by simp
qed

lemma marshalmode_transitions_example:
  "instrumentTransform (plain ''TestTransform'') = Inl AssertionError
   \<and> instrumentTransform fresh_t1 = Inr transform_t1
   \<and> fire (EvTransformPipe 0) heap_t1 = (None, heap_t1(0 := marshal_t1))
   \<and> (\<exists>t'. vsPush (JStr ''1'') busy_t1 = Inr t' \<and> vs_marshalmode t' = Some Nomarshal
          \<and> realpushed t' = [JStr ''1''])
   \<and> emits (EvPush 0 (JStr ''1'')) 0
   \<and> vs_marshalmode (fire_all [EvPush 0 (JStr ''1''), EvTransformPipe 0] heap_t1 0) = Some Nomarshal
   \<and> (\<exists>s. vsPush (JStr ''2'') (fire_all [EvPush 0 (JStr ''1''), EvTransformPipe 0] heap_t1 0) = Inr s
          \<and> realpushed s = [JStr ''1'', JStr ''2''])"
proof -
  have u: "\<not> isInstrumented (plain ''TestTransform'')"
    and i: "isInstrumented fresh_t1"
    by (simp_all add: isInstrumented_def fresh_t1_def plain_def)
  have tgt: "pipe_target heap_t1 0 = Some 0 \<and> vs_marshalmode (heap_t1 0) = Some Unspecified"
    by (simp add: pipe_target_def heap_t1_def busy_t1_def transform_t1_def fresh_t1_def plain_def)
  have busy: "JStr ''1'' \<noteq> JNull \<and> vs_marshalmode busy_t1 = Some Unspecified
      \<and> vs_name busy_t1 = Some ''t1'' \<and> vs_context busy_t1 = Some (ProvenanceValue (JStr ''h'') [])
      \<and> vs_counters busy_t1 ''hasOwnProperty'' = None"
    by (simp add: busy_t1_def transform_t1_def fresh_t1_def plain_def)
  define h1 where "h1 = snd (fire (EvPush 0 (JStr ''1'')) heap_t1)"
  have pushed: "h1 =
      heap_t1(0 := busy_t1\<lparr>vs_counters := [''ninputs'' \<mapsto> 1, ''noutputs'' \<mapsto> 1],
                 vs_marshalmode := Some Nomarshal, realpushed := [JStr ''1'']\<rparr>)"
    by (simp add: h1_def on_object_def vsPush_def vsCounterBump_def call_hasOwnProperty_def assign_def isInstrumented_def vs_realpush_def
        Let_def heap_t1_def busy_t1_def transform_t1_def fresh_t1_def plain_def)
  have changed: "vs_marshalmode (h1 0) \<noteq> vs_marshalmode (heap_t1 0)"
    by (simp add: pushed) (simp add: heap_t1_def busy_t1_def transform_t1_def)
  have committed: "vs_marshalmode (h1 0) = Some Nomarshal"
    by (simp add: pushed)
  have final: "fire_all [EvPush 0 (JStr ''1''), EvTransformPipe 0] heap_t1 = fire_all [EvTransformPipe 0] h1"
    by (simp add: h1_def)
  have unchanged: "fire_all [EvTransformPipe 0] h1 0 = h1 0"
    by (simp add: pushed transform_on_pipe_def pipe_target_def heap_t1_def busy_t1_def
        transform_t1_def fresh_t1_def plain_def)
  have again: "vsPush (JStr ''2'') (fire_all [EvTransformPipe 0] h1 0) =
      Inr (busy_t1\<lparr>vs_counters := [''ninputs'' \<mapsto> 1, ''noutputs'' \<mapsto> 2],
                 vs_marshalmode := Some Nomarshal, realpushed := [JStr ''1'', JStr ''2'']\<rparr>)"
    unfolding unchanged
    by (simp add: pushed vsPush_def vsCounterBump_def call_hasOwnProperty_def assign_def isInstrumented_def
        vs_realpush_def Let_def busy_t1_def transform_t1_def fresh_t1_def plain_def
        eval_nat_numeral)
  note p = marshalmode_transitions[where obj = "plain ''TestTransform''"]
  note m = marshalmode_transitions[where obj = fresh_t1 and h = heap_t1
      and u = 0 and a = 0 and chunk = "JStr ''1''" and this = busy_t1 and nm = "''t1''"
      and c = "ProvenanceValue (JStr ''h'') []" and ev = "EvPush 0 (JStr ''1'')"]
  note n = marshalmode_transitions[where h = h1 and a = 0 and evs = "[EvTransformPipe 0]"]
  from p u have a0: "instrumentTransform (plain ''TestTransform'') = Inl AssertionError" by blast
  from m i have "instrumentTransform fresh_t1 = Inr (fresh_t1\<lparr>vs_marshalmode := Some Unspecified\<rparr>)"
    by blast
  then have a1: "instrumentTransform fresh_t1 = Inr transform_t1"
    by (simp add: transform_t1_def)
  from m tgt have a2: "fire (EvTransformPipe 0) heap_t1
      = (None, heap_t1(0 := (heap_t1 0)\<lparr>vs_marshalmode := Some Marshal\<rparr>))" by blast
  have a2': "(heap_t1 0)\<lparr>vs_marshalmode := Some Marshal\<rparr> = marshal_t1"
    by (simp add: heap_t1_def marshal_t1_def)
  from m busy have a3: "\<exists>t'. vsPush (JStr ''1'') busy_t1 = Inr t' \<and> vs_marshalmode t' = Some Nomarshal
          \<and> realpushed t' = realpushed busy_t1 @ [JStr ''1'']" by blast
  have a3': "realpushed busy_t1 = []"
    by (simp add: busy_t1_def transform_t1_def fresh_t1_def plain_def)
  from m changed[unfolded h1_def] have a4: "connects heap_t1 (EvPush 0 (JStr ''1'')) 0 \<and> vs_marshalmode (h1 0) = Some Marshal
           \<or> emits (EvPush 0 (JStr ''1'')) 0 \<and> vs_marshalmode (h1 0) = Some Nomarshal"
    unfolding h1_def by blast
  from n committed have a5: "vs_marshalmode (fire_all [EvTransformPipe 0] h1 0) = Some Nomarshal
      \<and> (\<forall>v s. vsPush v (fire_all [EvTransformPipe 0] h1 0) = Inr s \<longrightarrow>
              realpushed s = realpushed (fire_all [EvTransformPipe 0] h1 0) @ [v]
              \<and> vs_marshalmode s = Some Nomarshal)" by blast
  from a5 again have a6: "\<exists>s. vsPush (JStr ''2'') (fire_all [EvTransformPipe 0] h1 0) = Inr s
      \<and> realpushed s = realpushed (fire_all [EvTransformPipe 0] h1 0) @ [JStr ''2'']" by blast
  have a6': "realpushed (fire_all [EvTransformPipe 0] h1 0) = [JStr ''1'']"
    unfolding unchanged by (simp add: pushed)
  from a4 have a4': "emits (EvPush 0 (JStr ''1'')) 0" by auto
  show ?thesis
    using a0 a1 a2 a2' a3 a3' a4' a5 a6 a6' final by (simp del: fire.simps fire_all.simps)
qed



section \<open>Stage linkage\<close>

lemma first_index_less: "first_index x xs < length xs \<longleftrightarrow> x \<in> set xs"
  by (induction xs) auto

lemma first_index_nth: "x \<in> set xs \<Longrightarrow> xs ! first_index x xs = x"
  by (induction xs) auto

lemma splice1_first_index: "splice1 (first_index x xs) xs = remove1 x xs"
  by (induction xs) (auto simp: splice1_def)

lemma count_list_remove1:
  "count_list (remove1 x xs) y = (if x = y \<and> x \<in> set xs then count_list xs y - 1 else count_list xs y)"
  by (induction xs) auto

lemma count_list_pos: "x \<in> set xs \<longleftrightarrow> 0 < count_list xs x"
  by (induction xs) auto

lemma vsRecordUnpipe_stages:
  assumes "vs_downstreams (h a) = Some ds" and "vs_upstreams (h b) = Some us"
  shows "vsRecordUnpipe a b h =
     (if b \<in> set ds \<and> a \<in> set us
      then (None, (h(a := (h a)\<lparr>vs_downstreams := Some (remove1 b ds)\<rparr>))
                    (b := ((h(a := (h a)\<lparr>vs_downstreams := Some (remove1 b ds)\<rparr>)) b)\<lparr>vs_upstreams := Some (remove1 a us)\<rparr>))
      else (Some AssertionError, h))"
  using assms
  by (auto simp: vsRecordUnpipe_def Let_def first_index_less splice1_first_index)

lemma count_list_snoc:
  "count_list (xs @ [x]) y = count_list xs y + (if x = y then 1 else 0)"
  by (induction xs) auto

lemma instrument_if_needed_stage:
  "is_stage obj \<Longrightarrow> instrument_if_needed prop obj = Inr obj"
  by (simp add: instrument_if_needed_def is_stage_def isInstrumented_def)

lemma instrument_if_needed_untouched:
  "untouched obj \<Longrightarrow> prop = vs_upstreams \<or> prop = vs_downstreams \<Longrightarrow>
     instrument_if_needed prop obj = Inr (staged obj)"
  by (auto simp: instrument_if_needed_def untouched_def isInstrumented_def instrumentObject_def
      instrumentStream_def staged_def)

lemma staged_is_stage: "is_stage (staged obj)"
  by (simp add: staged_def is_stage_def)

lemma lists_after_staging:
  assumes "untouched (h b)"
  shows "upstreams_of (h(b := staged (h b))) c = upstreams_of h c"
    and "downstreams_of (h(b := staged (h b))) c = downstreams_of h c"
  using assms by (auto simp: upstreams_of_def downstreams_of_def staged_def untouched_def)

lemma stages_only_staging:
  "stages_only h \<Longrightarrow> stages_only (h(b := staged (h b)))"
  by (auto simp: stages_only_def staged_is_stage)

lemma push_pair_lists:
  assumes "stages_only h" and "is_stage (h b)"
  shows "stages_only (snd (push_pair a b h))
   \<and> (fst (push_pair a b h) \<noteq> None \<longrightarrow> snd (push_pair a b h) = h)
   \<and> (fst (push_pair a b h) = None \<longrightarrow>
        (\<forall>c. downstreams_of (snd (push_pair a b h)) c =
               (if c = a then downstreams_of h a @ [b] else downstreams_of h c)
           \<and> upstreams_of (snd (push_pair a b h)) c =
               (if c = b then upstreams_of h b @ [a] else upstreams_of h c)))"
proof (cases "vs_downstreams (h a)")
  case None
  then show ?thesis using assms by (simp add: push_pair_def)
next
  case (Some ds)
  obtain us where us: "vs_upstreams (h b) = Some us"
    using assms(2) by (auto simp: is_stage_def)
  let ?h1 = "h(a := (h a)\<lparr>vs_downstreams := Some (ds @ [b])\<rparr>)"
  have ub: "vs_upstreams (?h1 b) = Some us"
    using us by auto
  let ?h2 = "?h1(b := (?h1 b)\<lparr>vs_upstreams := Some (us @ [a])\<rparr>)"
  have res: "push_pair a b h = (None, ?h2)"
    using Some ub by (simp add: push_pair_def Let_def del: fun_upd_apply)
  have "is_stage (h a) \<or> untouched (h a)"
    using assms(1) by (simp add: stages_only_def)
  then have sa: "is_stage (h a)"
    using Some by (auto simp: untouched_def)
  have st: "stages_only ?h2"
    unfolding stages_only_def
  proof
    fix c
    have "is_stage (h c) \<or> untouched (h c)"
      using assms(1) by (simp add: stages_only_def)
    then show "is_stage (?h2 c) \<or> untouched (?h2 c)"
      using sa assms(2) by (auto simp: is_stage_def untouched_def)
  qed
  have dl: "\<forall>c. downstreams_of ?h2 c = (if c = a then downstreams_of h a @ [b] else downstreams_of h c)"
    using Some by (auto simp: downstreams_of_def)
  have ul: "\<forall>c. upstreams_of ?h2 c = (if c = b then upstreams_of h b @ [a] else upstreams_of h c)"
    using us by (auto simp: upstreams_of_def)
  show ?thesis
    unfolding res using st dl ul by simp
qed

lemma vsRecordPipe_lists:
  assumes "stages_only h"
  shows "stages_only (snd (vsRecordPipe a b h))
   \<and> (fst (vsRecordPipe a b h) \<noteq> None \<longrightarrow>
        (\<forall>c. upstreams_of (snd (vsRecordPipe a b h)) c = upstreams_of h c
           \<and> downstreams_of (snd (vsRecordPipe a b h)) c = downstreams_of h c))
   \<and> (fst (vsRecordPipe a b h) = None \<longrightarrow>
        (\<forall>c. downstreams_of (snd (vsRecordPipe a b h)) c =
               (if c = a then downstreams_of h a @ [b] else downstreams_of h c)
           \<and> upstreams_of (snd (vsRecordPipe a b h)) c =
               (if c = b then upstreams_of h b @ [a] else upstreams_of h c)))"
proof -
  have "is_stage (h b) \<or> untouched (h b)"
    using assms by (simp add: stages_only_def)
  then show ?thesis
  proof
    assume sb: "is_stage (h b)"
    then have "vsRecordPipe a b h = push_pair a b h"
      by (simp add: vsRecordPipe_def instrument_if_needed_stage)
    with push_pair_lists[OF assms sb, of a] show ?thesis by auto
  next
    assume ub: "untouched (h b)"
    define h1 where "h1 = h(b := staged (h b))"
    have eq: "vsRecordPipe a b h = push_pair a b h1"
      using ub by (simp add: vsRecordPipe_def instrument_if_needed_untouched h1_def)
    have s1: "stages_only h1"
      unfolding h1_def using assms by (rule stages_only_staging)
    have b1: "is_stage (h1 b)" by (simp add: staged_is_stage h1_def)
    have same: "\<And>c. upstreams_of h1 c = upstreams_of h c"
      "\<And>c. downstreams_of h1 c = downstreams_of h c"
      unfolding h1_def using lists_after_staging[of h b, OF ub] by blast+
    have unchanged: "snd (push_pair a b h1) = h1 \<Longrightarrow>
       (\<forall>c. upstreams_of (snd (push_pair a b h1)) c = upstreams_of h c
          \<and> downstreams_of (snd (push_pair a b h1)) c = downstreams_of h c)"
      by (simp add: same)
    from push_pair_lists[OF s1 b1, of a] unchanged
    show ?thesis
      unfolding eq same by blast
  qed
qed

lemma vsRecordPipe_mutual:
  assumes "stages_only h" and "mutually_linked h"
  shows "stages_only (snd (vsRecordPipe a b h)) \<and> mutually_linked (snd (vsRecordPipe a b h))"
proof (cases "fst (vsRecordPipe a b h)")
  case None
  with vsRecordPipe_lists[OF assms(1), of a b] assms(2) show ?thesis
    by (auto simp: mutually_linked_def count_list_snoc)
next
  case (Some e)
  with vsRecordPipe_lists[OF assms(1), of a b] assms(2) show ?thesis
    by (auto simp: mutually_linked_def)
qed

lemma vsRecordUnpipe_lists:
  "(fst (vsRecordUnpipe a b h) \<noteq> None \<longrightarrow> snd (vsRecordUnpipe a b h) = h)
   \<and> (fst (vsRecordUnpipe a b h) = None \<longrightarrow>
        b \<in> set (downstreams_of h a) \<and> a \<in> set (upstreams_of h b)
        \<and> (\<forall>c. downstreams_of (snd (vsRecordUnpipe a b h)) c =
               (if c = a then remove1 b (downstreams_of h a) else downstreams_of h c)
           \<and> upstreams_of (snd (vsRecordUnpipe a b h)) c =
               (if c = b then remove1 a (upstreams_of h b) else upstreams_of h c)))"
  by (auto simp: vsRecordUnpipe_def Let_def first_index_less splice1_first_index
      upstreams_of_def downstreams_of_def split: option.splits)

lemma vsRecordUnpipe_stages_only:
  "stages_only h \<Longrightarrow> stages_only (snd (vsRecordUnpipe a b h))"
  by (auto simp: vsRecordUnpipe_def Let_def stages_only_def is_stage_def untouched_def
      split: option.splits)

lemma vsRecordUnpipe_mutual:
  assumes "mutually_linked h"
  shows "mutually_linked (snd (vsRecordUnpipe a b h))"
proof (cases "fst (vsRecordUnpipe a b h)")
  case None
  with vsRecordUnpipe_lists[of a b h] assms show ?thesis
    by (auto simp: mutually_linked_def count_list_remove1)
next
  case (Some e)
  with vsRecordUnpipe_lists[of a b h] assms show ?thesis by auto
qed

lemma link_all_mutual:
  assumes "stages_only h" and "mutually_linked h"
  shows "stages_only (link_all ops h) \<and> mutually_linked (link_all ops h)"
  using assms
proof (induction ops arbitrary: h)
  case Nil
  then show ?case by simp
next
  case (Cons x xs)
  have "stages_only (link x h) \<and> mutually_linked (link x h)"
    using Cons.prems
    by (cases x) (simp_all add: vsRecordPipe_mutual vsRecordUnpipe_mutual vsRecordUnpipe_stages_only)
  then show ?case using Cons.IH by simp
qed

lemma heap_stages_ok: "stages_only heap_stages \<and> mutually_linked heap_stages"
  by (simp add: stages_only_def mutually_linked_def heap_stages_def fresh_stage_def plain_def
      is_stage_def untouched_def upstreams_of_def downstreams_of_def)

lemma vsRecordPipe_heap_stages: "vsRecordPipe 0 1 heap_stages = (None, heap_piped)"
  by (simp add: vsRecordPipe_def push_pair_def instrument_if_needed_def isInstrumented_def Let_def
      heap_stages_def heap_piped_def fresh_stage_def plain_def fun_upd_twist)

text \<open>
  C5. From any heap whose objects are stages or untouched and whose lists are mutually
  linked (a heap of freshly instrumented stages is one), every sequence of
  \<^verbatim>\<open>vsRecordPipe\<close> and \<^verbatim>\<open>vsRecordUnpipe\<close> calls, failed calls included, ends in a
  heap where \<open>a\<close> occurs in the upstreams of \<open>b\<close> exactly as often as \<open>b\<close> occurs in
  the downstreams of \<open>a\<close>; in particular \<open>a\<close> is an upstream of \<open>b\<close> if and only if
  \<open>b\<close> is a downstream of \<open>a\<close>.
\<close>

theorem linkage_is_mutual:
  assumes "stages_only h" and "mutually_linked h"
  shows "count_list (upstreams_of (link_all ops h) b) a
           = count_list (downstreams_of (link_all ops h) a) b
     \<and> (a \<in> set (upstreams_of (link_all ops h) b) \<longleftrightarrow> b \<in> set (downstreams_of (link_all ops h) a))"
proof -
  have m: "mutually_linked (link_all ops h)"
    using link_all_mutual[OF assms] by simp
  then have c: "count_list (upstreams_of (link_all ops h) b) a
           = count_list (downstreams_of (link_all ops h) a) b"
    by (simp add: mutually_linked_def)
  then show ?thesis by (simp add: count_list_pos)
qed

theorem linkage_is_mutual_witness:
  "stages_only heap_stages \<and> mutually_linked heap_stages
   \<and> downstreams_of (link_all [RecordPipe 0 1, RecordPipe 0 1, RecordUnpipe 0 1, RecordPipe 1 2] heap_stages) 0 = [1]
   \<and> count_list (upstreams_of (link_all [RecordPipe 0 1, RecordPipe 0 1, RecordUnpipe 0 1, RecordPipe 1 2] heap_stages) 1) 0 = 1
   \<and> 0 \<in> set (upstreams_of (link_all [RecordPipe 0 1, RecordPipe 0 1, RecordUnpipe 0 1, RecordPipe 1 2] heap_stages) 1)"
proof -
  let ?ops = "[RecordPipe 0 1, RecordPipe 0 1, RecordUnpipe 0 1, RecordPipe 1 2]"
  have ok: "stages_only heap_stages" "mutually_linked heap_stages"
    using heap_stages_ok by simp_all
  have d: "downstreams_of (link_all ?ops heap_stages) 0 = [1]"
    by (simp add: vsRecordPipe_def push_pair_def instrument_if_needed_def isInstrumented_def Let_def
        vsRecordUnpipe_def splice1_def instrumentObject_def instrumentStream_def
        heap_stages_def fresh_stage_def plain_def downstreams_of_def)
  from linkage_is_mutual[OF ok, of ?ops 1 0] d ok show ?thesis
    by simp
qed

text \<open>
  The invariant needs its objects to be stages. An object that is instrumented but has
  never been through \<^verbatim>\<open>instrumentStream\<close> is not instrumented again by
  \<^verbatim>\<open>vsRecordPipe\<close>: the first push succeeds, the second throws a TypeError, and the
  stage keeps a downstream entry that nothing mirrors.
\<close>

lemma vsRecordPipe_not_a_stream:
  "vsRecordPipe 0 1 heap_half
     = (Some TypeError, heap_half(0 := (fresh_stage ''ReadStream'' ''source'')\<lparr>vs_downstreams := Some [1]\<rparr>))
   \<and> \<not> stages_only heap_half
   \<and> mutually_linked heap_half
   \<and> \<not> mutually_linked (snd (vsRecordPipe 0 1 heap_half))"
proof -
  have r: "vsRecordPipe 0 1 heap_half
     = (Some TypeError, heap_half(0 := (fresh_stage ''ReadStream'' ''source'')\<lparr>vs_downstreams := Some [1]\<rparr>))"
    by (simp add: vsRecordPipe_def push_pair_def instrument_if_needed_def isInstrumented_def Let_def
        heap_half_def fresh_stage_def transform_t1_def fresh_t1_def plain_def)
  have n: "\<not> stages_only heap_half"
    by (auto simp: stages_only_def is_stage_def untouched_def heap_half_def transform_t1_def
        fresh_t1_def plain_def intro!: exI[of _ 1])
  have m: "mutually_linked heap_half"
    by (simp add: mutually_linked_def upstreams_of_def downstreams_of_def heap_half_def
        fresh_stage_def transform_t1_def fresh_t1_def plain_def)
  have "count_list (upstreams_of (snd (vsRecordPipe 0 1 heap_half)) 1) 0
      \<noteq> count_list (downstreams_of (snd (vsRecordPipe 0 1 heap_half)) 0) 1"
    unfolding r
    by (simp add: upstreams_of_def downstreams_of_def heap_half_def fresh_stage_def
        transform_t1_def fresh_t1_def plain_def)
  then have "\<not> mutually_linked (snd (vsRecordPipe 0 1 heap_half))"
    unfolding mutually_linked_def by blast
  with r n m show ?thesis by blast
qed

text \<open>
  C7. For \<open>a\<close> with the downstream list \<open>ds\<close> and \<open>b\<close> with the upstream list \<open>us\<close>:
  \<^verbatim>\<open>a.vsRecordUnpipe(b)\<close> fails an assertion and changes nothing unless \<open>b\<close> is in
  \<open>ds\<close> and \<open>a\<close> is in \<open>us\<close>. When both hold, it returns, the downstream list of \<open>a\<close>
  is \<open>ds\<close> without its first \<open>b\<close>, the upstream list of \<open>b\<close> is \<open>us\<close> without its
  first \<open>a\<close>, the entries before and after the removed one keep their order, and nothing
  else in the heap changes.
\<close>

theorem vsRecordUnpipe_removes_pair:
  assumes "vs_downstreams (h a) = Some ds" and "vs_upstreams (h b) = Some us"
  shows "(\<not> (b \<in> set ds \<and> a \<in> set us) \<longrightarrow> vsRecordUnpipe a b h = (Some AssertionError, h))
   \<and> (b \<in> set ds \<and> a \<in> set us \<longrightarrow>
        (\<exists>h'. vsRecordUnpipe a b h = (None, h')
           \<and> vs_downstreams (h' a) = Some (remove1 b ds)
           \<and> vs_upstreams (h' b) = Some (remove1 a us)
           \<and> (\<exists>i. i < length ds \<and> ds ! i = b \<and> remove1 b ds = take i ds @ drop (Suc i) ds)
           \<and> (\<exists>j. j < length us \<and> us ! j = a \<and> remove1 a us = take j us @ drop (Suc j) us)
           \<and> (a \<noteq> b \<longrightarrow> vs_upstreams (h' a) = vs_upstreams (h a)
                         \<and> vs_downstreams (h' b) = vs_downstreams (h b))
           \<and> (\<forall>c. c \<noteq> a \<and> c \<noteq> b \<longrightarrow> h' c = h c)))"
proof (intro conjI impI)
  assume "\<not> (b \<in> set ds \<and> a \<in> set us)"
  then show "vsRecordUnpipe a b h = (Some AssertionError, h)"
    using vsRecordUnpipe_stages[OF assms] by simp
next
  assume linked: "b \<in> set ds \<and> a \<in> set us"
  let ?h1 = "h(a := (h a)\<lparr>vs_downstreams := Some (remove1 b ds)\<rparr>)"
  let ?h' = "?h1(b := (?h1 b)\<lparr>vs_upstreams := Some (remove1 a us)\<rparr>)"
  have res: "vsRecordUnpipe a b h = (None, ?h')"
    using vsRecordUnpipe_stages[OF assms] linked by simp
  have i: "first_index b ds < length ds \<and> ds ! first_index b ds = b
      \<and> remove1 b ds = take (first_index b ds) ds @ drop (Suc (first_index b ds)) ds"
    using linked splice1_first_index[of b ds]
    by (simp add: first_index_less first_index_nth splice1_def)
  have j: "first_index a us < length us \<and> us ! first_index a us = a
      \<and> remove1 a us = take (first_index a us) us @ drop (Suc (first_index a us)) us"
    using linked splice1_first_index[of a us]
    by (simp add: first_index_less first_index_nth splice1_def)
  have "vs_downstreams (?h' a) = Some (remove1 b ds)" by simp
  moreover have "vs_upstreams (?h' b) = Some (remove1 a us)" by simp
  moreover have "a \<noteq> b \<longrightarrow> vs_upstreams (?h' a) = vs_upstreams (h a)
                         \<and> vs_downstreams (?h' b) = vs_downstreams (h b)" by simp
  moreover have "\<forall>c. c \<noteq> a \<and> c \<noteq> b \<longrightarrow> ?h' c = h c" by simp
  ultimately show "\<exists>h'. vsRecordUnpipe a b h = (None, h')
           \<and> vs_downstreams (h' a) = Some (remove1 b ds)
           \<and> vs_upstreams (h' b) = Some (remove1 a us)
           \<and> (\<exists>i. i < length ds \<and> ds ! i = b \<and> remove1 b ds = take i ds @ drop (Suc i) ds)
           \<and> (\<exists>j. j < length us \<and> us ! j = a \<and> remove1 a us = take j us @ drop (Suc j) us)
           \<and> (a \<noteq> b \<longrightarrow> vs_upstreams (h' a) = vs_upstreams (h a)
                         \<and> vs_downstreams (h' b) = vs_downstreams (h b))
           \<and> (\<forall>c. c \<noteq> a \<and> c \<noteq> b \<longrightarrow> h' c = h c)"
    using res i j by blast
qed

theorem vsRecordUnpipe_removes_pair_witness:
  "vsRecordUnpipe 1 0 heap_piped = (Some AssertionError, heap_piped)
   \<and> (\<exists>h'. vsRecordUnpipe 0 1 heap_piped = (None, h')
         \<and> vs_downstreams (h' 0) = Some [] \<and> vs_upstreams (h' 1) = Some []
         \<and> vs_upstreams (h' 0) = Some [] \<and> vs_downstreams (h' 1) = Some []
         \<and> h' 2 = plain ''Object'')"
proof -
  have d0: "vs_downstreams (heap_piped 0) = Some [1]" and u1: "vs_upstreams (heap_piped 1) = Some [0]"
    and d1: "vs_downstreams (heap_piped 1) = Some []" and u0: "vs_upstreams (heap_piped 0) = Some []"
    and o2: "heap_piped 2 = plain ''Object''"
    by (simp_all add: heap_piped_def fresh_stage_def plain_def)
  from vsRecordUnpipe_removes_pair[OF d1 u0]
  have a: "vsRecordUnpipe 1 0 heap_piped = (Some AssertionError, heap_piped)" by simp
  from vsRecordUnpipe_removes_pair[OF d0 u1]
  obtain h' where h': "vsRecordUnpipe 0 1 heap_piped = (None, h')"
    "vs_downstreams (h' 0) = Some (remove1 1 [1])" "vs_upstreams (h' 1) = Some (remove1 0 [0])"
    "(0::nat) \<noteq> 1 \<longrightarrow> vs_upstreams (h' 0) = vs_upstreams (heap_piped 0)
                         \<and> vs_downstreams (h' 1) = vs_downstreams (heap_piped 1)"
    "\<forall>c. c \<noteq> 0 \<and> c \<noteq> 1 \<longrightarrow> h' c = heap_piped c"
    by auto
  then have "vs_downstreams (h' 0) = Some [] \<and> vs_upstreams (h' 1) = Some []
         \<and> vs_upstreams (h' 0) = Some [] \<and> vs_downstreams (h' 1) = Some []
         \<and> h' 2 = plain ''Object''"
    using d1 u0 o2 by simp
  with a h'(1) show ?thesis by blast
qed

section \<open>The pipeline stream's read side\<close>

lemma read_loop_bound:
  assumes "normal_engine tail_read push"
  shows "\<exists>s'. read_loop tail_read push s = Some s'
     \<and> readable_highWaterMark s' = readable_highWaterMark s
     \<and> readable_length s' \<le> max (readable_length s + 1) (readable_highWaterMark s)"
proof (induction "readable_highWaterMark s - readable_length s" arbitrary: s rule: less_induct)
  case less
  obtain chunk s1 where t: "tail_read s = (chunk, s1)" by (cases "tail_read s")
  have s1: "readable_length s1 = readable_length s" "readable_highWaterMark s1 = readable_highWaterMark s"
  proof -
    have "readable_length (snd (tail_read s)) = readable_length s
           \<and> readable_highWaterMark (snd (tail_read s)) = readable_highWaterMark s"
      using assms unfolding normal_engine_def by blast
    then show "readable_length s1 = readable_length s"
      and "readable_highWaterMark s1 = readable_highWaterMark s"
      using t by simp_all
  qed
  show ?case
  proof (cases "chunk = JNull")
    case True
    then show ?thesis
      using t s1 by (subst read_loop.simps) simp
  next
    case False
    obtain wants_more s2 where p: "push chunk s1 = (wants_more, s2)" by (cases "push chunk s1")
    have "readable_length (snd (push chunk s1)) = readable_length s1 + 1
           \<and> readable_highWaterMark (snd (push chunk s1)) = readable_highWaterMark s1
           \<and> (fst (push chunk s1) \<longrightarrow> readable_length (snd (push chunk s1)) < readable_highWaterMark s1)"
      using assms unfolding normal_engine_def by blast
    then have s2: "readable_length s2 = readable_length s + 1"
      "readable_highWaterMark s2 = readable_highWaterMark s"
      "wants_more \<longrightarrow> readable_length s2 < readable_highWaterMark s"
      using p s1 by auto
    show ?thesis
    proof (cases wants_more)
      case False
      then show ?thesis
        using t p \<open>chunk \<noteq> JNull\<close> s2 by (subst read_loop.simps) simp
    next
      case True
      then have less2: "readable_highWaterMark s2 - readable_length s2
          < readable_highWaterMark s - readable_length s"
        using s2 by simp
      from less.hyps[OF less2] obtain s' where s': "read_loop tail_read push s2 = Some s'"
        "readable_highWaterMark s' = readable_highWaterMark s2"
        "readable_length s' \<le> max (readable_length s2 + 1) (readable_highWaterMark s2)"
        by blast
      have "read_loop tail_read push s = read_loop tail_read push s2"
        using t p \<open>chunk \<noteq> JNull\<close> True by (subst read_loop.simps) simp
      then show ?thesis
        using s' s2 True by auto
    qed
  qed
qed





text \<open>
  One \<^verbatim>\<open>_read\<close> that the engine enters while the buffer is not above the mark returns
  and leaves at most the mark plus one.
\<close>

lemma read_entered_at_mark:
  assumes "normal_engine tail_read push"
    and "readable_length this \<le> readable_highWaterMark this"
  shows "\<exists>s. PipelineStream_read tail_read push this = Some (Inr s)
            \<and> readable_highWaterMark s = readable_highWaterMark this
            \<and> readable_length s \<le> readable_highWaterMark this + 1"
proof -
  obtain s where s: "read_loop tail_read push this = Some s"
     "readable_highWaterMark s = readable_highWaterMark this"
     "readable_length s \<le> max (readable_length this + 1) (readable_highWaterMark this)"
    using read_loop_bound[OF assms(1), of this] by blast
  have "PipelineStream_read tail_read push this = Some (Inr s)"
    using assms(2) s(1) by (simp add: PipelineStream_read_def)
  moreover have "readable_length s \<le> readable_highWaterMark this + 1"
    using assms(2) s(3) by arith
  ultimately show ?thesis using s(2) by blast
qed











end
